theory Spec2Isabelle
  imports Complex_Main "HOL-Library.Multiset" "HOL-Library.Log_Nat" "HOL-Library.Product_Lexorder"
begin

section \<open>NeuraPay transaction analytics: data model\<close>

subsection \<open>\<^verbatim>\<open>float64\<close>\<close>

text \<open>
  All amounts, totals and scores of \<^verbatim>\<open>main.go\<close> are Go \<^verbatim>\<open>float64\<close> values, that is
  IEEE 754 binary64 numbers, and every arithmetic operation on them rounds its exact
  result to the nearest representable number, ties to the even significand. The model
  keeps this: a \<^verbatim>\<open>float64\<close> is an infinity, a not-a-number, the negative zero, or
  \<open>Finite x\<close> for the real number \<open>x\<close> it denotes (\<open>Finite 0\<close> is the positive zero), and
  each operation rounds the exact real result with \<open>round64\<close>. The payload of a
  not-a-number is not kept. Operations are rounded one by one, as the Go compiler does
  on amd64; it does not fuse a multiplication with an addition there.

  The finite \<^verbatim>\<open>float64\<close> numbers are the reals \<open>m * 2 ^ e\<close> with integer \<open>\<bar>m\<bar> < 2 ^ 53\<close>
  and \<open>- 1074 \<le> e \<le> 971\<close>.
\<close>

datatype float64 = Finite real | NegZero | PosInf | NegInf | NaN

definition pow2 :: "int \<Rightarrow> real" where
  "pow2 e = (if 0 \<le> e then 2 ^ nat e else 1 / 2 ^ nat (- e))"

text \<open>For \<open>x > 0\<close>, the integer \<open>k\<close> with \<open>2 ^ k \<le> x < 2 ^ (k + 1)\<close>.\<close>

definition floor_log2 :: "real \<Rightarrow> int" where
  "floor_log2 x = (if 1 \<le> x then bitlen \<lfloor>x\<rfloor> - 1 else - bitlen (\<lceil>1 / x\<rceil> - 1))"

text \<open>
  The exponent of the unit in the last place at \<open>x\<close>: a normal number has 53 significant
  bits, and below \<open>2 ^ - 1022\<close> the spacing stays \<open>2 ^ - 1074\<close> (subnormal numbers).
\<close>

definition ulp_exponent :: "real \<Rightarrow> int" where
  "ulp_exponent x = (if \<bar>x\<bar> < pow2 (- 1022) then - 1074 else floor_log2 \<bar>x\<bar> - 52)"

definition round_half_even :: "real \<Rightarrow> int" where
  "round_half_even x =
     (let n = \<lfloor>x\<rfloor>; r = x - of_int n
      in if r < 1 / 2 then n
         else if 1 / 2 < r then n + 1
         else if even n then n else n + 1)"

text \<open>
  Rounding to nearest, ties to even. A result of magnitude \<open>2 ^ 1024\<close> or more overflows
  to an infinity; a negative number that rounds to zero gives the negative zero.
\<close>

definition round64 :: "real \<Rightarrow> float64" where
  "round64 x =
     (let e = ulp_exponent x;
          y = of_int (round_half_even (x / pow2 e)) * pow2 e
      in if 2 ^ 1024 \<le> y then PosInf
         else if y \<le> - (2 ^ 1024) then NegInf
         else if y = 0 \<and> x < 0 then NegZero
         else Finite y)"

fun val :: "float64 \<Rightarrow> real" where
  "val (Finite x) = x"
| "val _ = 0"

fun is_zero :: "float64 \<Rightarrow> bool" where
  "is_zero (Finite x) = (x = 0)"
| "is_zero NegZero = True"
| "is_zero _ = False"

fun is_inf :: "float64 \<Rightarrow> bool" where
  "is_inf PosInf = True"
| "is_inf NegInf = True"
| "is_inf _ = False"

fun signbit :: "float64 \<Rightarrow> bool" where
  "signbit (Finite x) = (x < 0)"
| "signbit NegZero = True"
| "signbit NegInf = True"
| "signbit _ = False"

definition signed_zero :: "bool \<Rightarrow> float64" where
  "signed_zero neg = (if neg then NegZero else Finite 0)"

definition signed_inf :: "bool \<Rightarrow> float64" where
  "signed_inf neg = (if neg then NegInf else PosInf)"

text \<open>The conversion \<^verbatim>\<open>float64(n)\<close> of an integer, and a numeric constant of the source
  text taken as a \<^verbatim>\<open>float64\<close>.\<close>

definition float64_of_int :: "int \<Rightarrow> float64" where
  "float64_of_int n = round64 (of_int n)"

definition const64 :: "real \<Rightarrow> float64" where
  "const64 c = round64 c"

fun fneg :: "float64 \<Rightarrow> float64" where
  "fneg (Finite x) = (if x = 0 then NegZero else Finite (- x))"
| "fneg NegZero = Finite 0"
| "fneg PosInf = NegInf"
| "fneg NegInf = PosInf"
| "fneg NaN = NaN"

text \<open>\<^verbatim>\<open>x + y\<close>. An exact sum of zero is the positive zero unless both operands are
  the negative zero.\<close>

definition fadd :: "float64 \<Rightarrow> float64 \<Rightarrow> float64" where
  "fadd a b =
     (if a = NaN \<or> b = NaN then NaN
      else if is_inf a then (if is_inf b \<and> b \<noteq> a then NaN else a)
      else if is_inf b then b
      else if a = NegZero \<and> b = NegZero then NegZero
      else round64 (val a + val b))"

text \<open>\<^verbatim>\<open>x - y\<close> is \<open>x + (- y)\<close>.\<close>

definition fsub :: "float64 \<Rightarrow> float64 \<Rightarrow> float64" where
  "fsub a b = fadd a (fneg b)"

text \<open>\<^verbatim>\<open>x * y\<close> and \<^verbatim>\<open>x / y\<close>: the sign of a zero or infinite result is the exclusive or
  of the operands' signs.\<close>

definition fmul :: "float64 \<Rightarrow> float64 \<Rightarrow> float64" where
  "fmul a b =
     (if a = NaN \<or> b = NaN then NaN
      else if is_inf a \<or> is_inf b then
        (if is_zero a \<or> is_zero b then NaN else signed_inf (signbit a \<noteq> signbit b))
      else if is_zero a \<or> is_zero b then signed_zero (signbit a \<noteq> signbit b)
      else round64 (val a * val b))"

definition fdiv :: "float64 \<Rightarrow> float64 \<Rightarrow> float64" where
  "fdiv a b =
     (if a = NaN \<or> b = NaN then NaN
      else if is_inf a then (if is_inf b then NaN else signed_inf (signbit a \<noteq> signbit b))
      else if is_inf b then signed_zero (signbit a \<noteq> signbit b)
      else if is_zero b then (if is_zero a then NaN else signed_inf (signbit a \<noteq> signbit b))
      else if is_zero a then signed_zero (signbit a \<noteq> signbit b)
      else round64 (val a / val b))"

text \<open>\<^verbatim>\<open>x < y\<close> and \<^verbatim>\<open>x > y\<close>: false when an operand is not a number; the two zeros
  compare equal.\<close>

definition flt :: "float64 \<Rightarrow> float64 \<Rightarrow> bool" where
  "flt a b \<longleftrightarrow>
     a \<noteq> NaN \<and> b \<noteq> NaN \<and> a \<noteq> PosInf \<and> b \<noteq> NegInf \<and>
     (a = NegInf \<or> b = PosInf \<or> val a < val b)"

definition fgt :: "float64 \<Rightarrow> float64 \<Rightarrow> bool" where
  "fgt a b \<longleftrightarrow> flt b a"

text \<open>\<^verbatim>\<open>x <= y\<close>, which the properties below use to state bounds.\<close>

definition fle :: "float64 \<Rightarrow> float64 \<Rightarrow> bool" where
  "fle a b \<longleftrightarrow> a \<noteq> NaN \<and> b \<noteq> NaN \<and> \<not> flt b a"

text \<open>\<^verbatim>\<open>math.Sqrt\<close> (correctly rounded) and \<^verbatim>\<open>math.Min\<close>, with the special cases of
  their documentation.\<close>

fun math_Sqrt :: "float64 \<Rightarrow> float64" where
  "math_Sqrt (Finite x) = (if x < 0 then NaN else round64 (sqrt x))"
| "math_Sqrt NegZero = NegZero"
| "math_Sqrt PosInf = PosInf"
| "math_Sqrt NegInf = NaN"
| "math_Sqrt NaN = NaN"

definition math_Min :: "float64 \<Rightarrow> float64 \<Rightarrow> float64" where
  "math_Min x y =
     (if x = NegInf \<or> y = NegInf then NegInf
      else if x = NaN \<or> y = NaN then NaN
      else if is_zero x \<and> is_zero y then (if signbit x then x else y)
      else if flt x y then x else y)"

subsection \<open>Transactions\<close>

text \<open>
  The analytics functions work on \<^verbatim>\<open>[]map[string]interface{}\<close>: each transaction is a
  map from field names to decoded values. A JSON number decodes to a \<^verbatim>\<open>float64\<close>; the
  CSV loader stores the result of \<^verbatim>\<open>strconv.ParseFloat\<close>, which may also be an
  infinity or a not-a-number. A field is read with a type assertion whose failure is
  discarded (\<^verbatim>\<open>amount, _ := tx["amount"].(float64)\<close>), so a missing or wrong-typed field
  reads as the zero value of the asserted type. Go's \<^verbatim>\<open>int\<close> is modelled by \<open>int\<close>.
\<close>

datatype jvalue =
    JNull
  | JBool bool
  | JNumber float64
  | JString string
  | JArray "jvalue list"
  | JObject "(string \<times> jvalue) list"

type_synonym transaction = "string \<rightharpoonup> jvalue"

definition string_field :: "transaction \<Rightarrow> string \<Rightarrow> string" where
  "string_field tx k = (case tx k of Some (JString s) \<Rightarrow> s | _ \<Rightarrow> [])"

definition float_field :: "transaction \<Rightarrow> string \<Rightarrow> float64" where
  "float_field tx k = (case tx k of Some (JNumber x) \<Rightarrow> x | _ \<Rightarrow> Finite 0)"

section \<open>Spending analyzer\<close>

subsection \<open>The accumulation loop of \<^verbatim>\<open>analyzeTransactions\<close>\<close>

record totals =
  totalSpent :: float64
  totalReceived :: float64
  spendCount :: int
  receiveCount :: int
  categorySpending :: "string \<rightharpoonup> float64"

definition totals_init :: totals where
  "totals_init =
     \<lparr>totalSpent = Finite 0, totalReceived = Finite 0, spendCount = 0, receiveCount = 0,
      categorySpending = Map.empty\<rparr>"

text \<open>\<^verbatim>\<open>m[k] += v\<close> on a Go map: a missing key reads as 0.\<close>

definition map_add_to ::
  "(string \<rightharpoonup> float64) \<Rightarrow> string \<Rightarrow> float64 \<Rightarrow> (string \<rightharpoonup> float64)" where
  "map_add_to m k v = m(k \<mapsto> fadd (case m k of None \<Rightarrow> Finite 0 | Some w \<Rightarrow> w) v)"

definition analyze_step :: "totals \<Rightarrow> transaction \<Rightarrow> totals" where
  "analyze_step st tx =
     (let txType = string_field tx ''type'';
          amount = float_field tx ''amount'';
          category = string_field tx ''category''
      in if txType = ''send'' then
           st\<lparr>totalSpent := fadd (totalSpent st) amount,
              spendCount := spendCount st + 1,
              categorySpending :=
                (if category \<noteq> [] then map_add_to (categorySpending st) category amount
                 else categorySpending st)\<rparr>
         else if txType = ''receive'' then
           st\<lparr>totalReceived := fadd (totalReceived st) amount,
              receiveCount := receiveCount st + 1\<rparr>
         else st)"

definition analyze_loop :: "transaction list \<Rightarrow> totals" where
  "analyze_loop txs = foldl analyze_step totals_init txs"

subsection \<open>\<^verbatim>\<open>calculateVelocity\<close>\<close>

definition calculateVelocity :: "int \<Rightarrow> int \<Rightarrow> string" where
  "calculateVelocity transactionCount days =
     (let txPerWeek =
            fmul (fdiv (float64_of_int transactionCount) (float64_of_int days)) (const64 7)
      in if flt txPerWeek (const64 2) then ''low''
         else if flt txPerWeek (const64 7) then ''moderate''
         else ''high'')"

subsection \<open>Category ranking\<close>

datatype categoryTotal = CategoryTotal (Category: string) (Amount: float64)

text \<open>
  \<^verbatim>\<open>for cat, amt := range categorySpending\<close> appends one entry per key. Go leaves the
  iteration order of a map unspecified, so the slice built by the loop is any enumeration
  of the map's entries, each once.
\<close>

definition map_range :: "(string \<rightharpoonup> float64) \<Rightarrow> categoryTotal list \<Rightarrow> bool" where
  "map_range m cats \<longleftrightarrow>
     distinct (map Category cats) \<and>
     map_of (map (\<lambda>c. (Category c, Amount c)) cats) = m"

text \<open>
  \<^verbatim>\<open>sort.Slice\<close> permutes the slice. It is documented as not stable, and its less
  function has to be a strict weak ordering of the elements (which \<^verbatim>\<open>>\<close> on
  \<^verbatim>\<open>float64\<close> is not when a not-a-number is among them); then, in the result, no later
  element is less than an earlier one.
\<close>

definition strict_weak_on :: "'a set \<Rightarrow> ('a \<Rightarrow> 'a \<Rightarrow> bool) \<Rightarrow> bool" where
  "strict_weak_on A lessf \<longleftrightarrow>
     (\<forall>a\<in>A. \<not> lessf a a) \<and>
     (\<forall>a\<in>A. \<forall>b\<in>A. \<forall>c\<in>A. lessf a b \<and> lessf b c \<longrightarrow> lessf a c) \<and>
     (\<forall>a\<in>A. \<forall>b\<in>A. \<forall>c\<in>A.
        \<not> lessf a b \<and> \<not> lessf b a \<and> \<not> lessf b c \<and> \<not> lessf c b \<longrightarrow>
        \<not> lessf a c \<and> \<not> lessf c a)"

definition sort_Slice :: "('a \<Rightarrow> 'a \<Rightarrow> bool) \<Rightarrow> 'a list \<Rightarrow> 'a list \<Rightarrow> bool" where
  "sort_Slice lessf xs ys \<longleftrightarrow>
     mset ys = mset xs \<and>
     (strict_weak_on (set xs) lessf \<longrightarrow> sorted_wrt (\<lambda>a b. \<not> lessf b a) ys)"

definition category_less :: "categoryTotal \<Rightarrow> categoryTotal \<Rightarrow> bool" where
  "category_less a b \<longleftrightarrow> fgt (Amount a) (Amount b)"

text \<open>The loop that copies the first five entries into the \<^verbatim>\<open>topCategories\<close> map.\<close>

definition build_top :: "categoryTotal list \<Rightarrow> (string \<rightharpoonup> float64)" where
  "build_top cats = foldl (\<lambda>m c. m(Category c \<mapsto> Amount c)) Map.empty (take 5 cats)"

subsection \<open>The report\<close>

text \<open>
  Fields that the source renders with \<^verbatim>\<open>fmt.Sprintf\<close> hold the value handed to the
  formatter; the insight strings are kept as their template and arguments.
\<close>

datatype insight =
    SpendingTransactions int int
  | AverageDailySpend float64
  | NetCashFlow float64
  | SavingsGoalAdvice

record report =
  total_spent :: float64
  total_received :: float64
  net_cashflow :: float64
  spend_count :: int
  receive_count :: int
  avg_daily_spend :: float64
  velocity :: string
  top_categories :: "string \<rightharpoonup> float64"
  insights :: "insight list"

datatype analysis =
    Summary string
  | Analysis report

definition make_report :: "totals \<Rightarrow> int \<Rightarrow> categoryTotal list \<Rightarrow> report" where
  "make_report st days categories =
     (let avgDailySpend = fdiv (totalSpent st) (float64_of_int days)
      in \<lparr>total_spent = totalSpent st,
          total_received = totalReceived st,
          net_cashflow = fsub (totalReceived st) (totalSpent st),
          spend_count = spendCount st,
          receive_count = receiveCount st,
          avg_daily_spend = avgDailySpend,
          velocity = calculateVelocity (spendCount st) days,
          top_categories = build_top categories,
          insights =
            [SpendingTransactions (spendCount st) days,
             AverageDailySpend avgDailySpend,
             NetCashFlow (fsub (totalReceived st) (totalSpent st)),
             SavingsGoalAdvice]\<rparr>)"

text \<open>
  \<^verbatim>\<open>analyzeTransactions\<close>: a relation between the input and each result the function
  may return, since the ranking depends on the map iteration order and on how the
  unstable sort places equal amounts.
\<close>

inductive analyzeTransactions :: "transaction list \<Rightarrow> int \<Rightarrow> analysis \<Rightarrow> bool" where
  no_transactions:
    "analyzeTransactions [] days (Summary ''No transactions found in the specified period'')"
| report:
    "transactions \<noteq> [] \<Longrightarrow>
     map_range (categorySpending (analyze_loop transactions)) cats \<Longrightarrow>
     sort_Slice category_less cats categories \<Longrightarrow>
     analyzeTransactions transactions days
       (Analysis (make_report (analyze_loop transactions) days categories))"

inductive_cases analyzeTransactions_AnalysisE: "analyzeTransactions txs days (Analysis r)"
inductive_cases analyzeTransactions_SummaryE: "analyzeTransactions txs days (Summary s)"

subsection \<open>The handler of \<^verbatim>\<open>createSpendingAnalyzerTool\<close>\<close>

text \<open>
  The handler from the point where the parameters are decoded and the transactions are
  fetched: it defaults \<^verbatim>\<open>params.Days\<close>, calls \<^verbatim>\<open>analyzeTransactions\<close> and wraps
  the analysis. The \<^verbatim>\<open>data_source\<close> and \<^verbatim>\<open>generated_at\<close> entries of the result are
  left out.
\<close>

record 'a ToolResult =
  Success :: bool
  Data :: "'a option"
  Error :: string

record spending_result =
  period_days :: int
  total_transactions :: int
  analysis_result :: analysis

definition default_days :: "int \<Rightarrow> int" where
  "default_days days = (if days = 0 then 30 else days)"

inductive createSpendingAnalyzerTool_handler ::
  "int \<Rightarrow> transaction list \<Rightarrow> spending_result ToolResult \<Rightarrow> bool" where
  "analyzeTransactions transactions (default_days days) a \<Longrightarrow>
   createSpendingAnalyzerTool_handler days transactions
     \<lparr>Success = True,
      Data = Some \<lparr>period_days = default_days days,
                   total_transactions = int (length transactions),
                   analysis_result = a\<rparr>,
      Error = []\<rparr>"

section \<open>Money personality\<close>

subsection \<open>\<^verbatim>\<open>calculateMean\<close> and \<^verbatim>\<open>calculateVariance\<close>\<close>

definition calculateMean :: "float64 list \<Rightarrow> float64" where
  "calculateMean values =
     (if length values = 0 then Finite 0
      else fdiv (foldl (\<lambda>sum v. fadd sum v) (Finite 0) values)
             (float64_of_int (int (length values))))"

definition calculateVariance :: "float64 list \<Rightarrow> float64" where
  "calculateVariance values =
     (if length values = 0 then Finite 0
      else let mean = calculateMean values
           in fdiv (foldl (\<lambda>variance v. fadd variance (fmul (fsub v mean) (fsub v mean)))
                      (Finite 0) values)
                (float64_of_int (int (length values))))"

subsection \<open>The collection loop of \<^verbatim>\<open>calculatePersonalityScores\<close>\<close>

record score_state =
  amounts :: "float64 list"
  balances :: "float64 list"
  incomeCount :: int
  totalIncome :: float64
  totalSpend :: float64
  savingsTransactions :: int
  categorySpend :: "string \<rightharpoonup> float64"

definition score_init :: score_state where
  "score_init =
     \<lparr>amounts = [], balances = [], incomeCount = 0, totalIncome = Finite 0,
      totalSpend = Finite 0, savingsTransactions = 0, categorySpend = Map.empty\<rparr>"

definition score_step :: "score_state \<Rightarrow> transaction \<Rightarrow> score_state" where
  "score_step st tx =
     (let txType = string_field tx ''type'';
          amount = float_field tx ''amount'';
          category = string_field tx ''category'';
          balance = float_field tx ''balance_after'';
          st1 =
            (if txType = ''send'' then
               st\<lparr>amounts := amounts st @ [amount],
                  totalSpend := fadd (totalSpend st) amount,
                  categorySpend := map_add_to (categorySpend st) category amount,
                  savingsTransactions :=
                    (if category = ''savings'' then savingsTransactions st + 1
                     else savingsTransactions st)\<rparr>
             else if txType = ''receive'' then
               st\<lparr>incomeCount := incomeCount st + 1,
                  totalIncome := fadd (totalIncome st) amount\<rparr>
             else st)
      in if fgt balance (Finite 0) then st1\<lparr>balances := balances st1 @ [balance]\<rparr> else st1)"

definition score_loop :: "transaction list \<Rightarrow> score_state" where
  "score_loop txs = foldl score_step score_init txs"

subsection \<open>The five scores\<close>

definition amount_distribution_score :: "float64 list \<Rightarrow> float64" where
  "amount_distribution_score as =
     (let variance = calculateVariance as;
          mean = calculateMean as;
          cv = (if fgt mean (Finite 0)
                then fmul (fdiv (math_Sqrt variance) mean) (const64 100)
                else Finite 0)
      in math_Min cv (const64 100))"

definition balance_comfort_score :: "float64 \<Rightarrow> float64 list \<Rightarrow> float64" where
  "balance_comfort_score b0 bs =
     (let avgBalance = calculateMean bs;
          minBalance = foldl (\<lambda>m b. if flt b m then b else m) b0 bs;
          bufferRatio = (if fgt avgBalance (Finite 0)
                         then fmul (fdiv minBalance avgBalance) (const64 100)
                         else Finite 0)
      in math_Min bufferRatio (const64 100))"

definition calculatePersonalityScores :: "transaction list \<Rightarrow> (string \<rightharpoonup> float64)" where
  "calculatePersonalityScores transactions =
     (let st = score_loop transactions;
          txPerWeek = fdiv (float64_of_int (int (length transactions))) (const64 4);
          scores1 =
            Map.empty(''transaction_velocity'' \<mapsto>
              math_Min (fmul txPerWeek (const64 10)) (const64 100));
          scores2 =
            (if length (amounts st) > 0
             then scores1(''amount_distribution'' \<mapsto> amount_distribution_score (amounts st))
             else scores1);
          scores3 =
            (case balances st of
               [] \<Rightarrow> scores2
             | b0 # _ \<Rightarrow>
                 scores2(''balance_comfort'' \<mapsto> balance_comfort_score b0 (balances st)));
          savingsRate =
            (if length transactions > 0
             then fmul (fmul (fdiv (float64_of_int (savingsTransactions st))
                                (float64_of_int (int (length transactions))))
                          (const64 100))
                    (const64 3)
             else Finite 0);
          scores4 = scores3(''savings_affinity'' \<mapsto> math_Min savingsRate (const64 100))
      in scores4(''income_response'' \<mapsto> const64 50))"

subsection \<open>\<^verbatim>\<open>matchArchetype\<close>\<close>

text \<open>
  An archetype of the catalog is its name and its matcher; the emoji and the descriptive
  texts (traits, triggers, strategies, fun fact) are constant data copied from the
  selected entry and are left out. A score that is absent from the map reads as 0, as a
  Go map lookup does.
\<close>

datatype archetype =
  Archetype (name: string) (matcher: "(string \<rightharpoonup> float64) \<Rightarrow> float64")

definition score_at :: "(string \<rightharpoonup> float64) \<Rightarrow> string \<Rightarrow> float64" where
  "score_at s k = (case s k of None \<Rightarrow> Finite 0 | Some v \<Rightarrow> v)"

definition reward_seeker :: "(string \<rightharpoonup> float64) \<Rightarrow> float64" where
  "reward_seeker s =
     fadd (fadd (fmul (score_at s ''transaction_velocity'') (const64 0.4))
                (fmul (fsub (const64 100) (score_at s ''savings_affinity'')) (const64 0.3)))
          (fmul (score_at s ''income_response'') (const64 0.3))"

definition safety_hoarder :: "(string \<rightharpoonup> float64) \<Rightarrow> float64" where
  "safety_hoarder s =
     fadd (fadd (fmul (score_at s ''balance_comfort'') (const64 0.4))
                (fmul (fsub (const64 100) (score_at s ''transaction_velocity'')) (const64 0.3)))
          (fmul (score_at s ''savings_affinity'') (const64 0.3))"

definition impulse_optimizer :: "(string \<rightharpoonup> float64) \<Rightarrow> float64" where
  "impulse_optimizer s =
     fadd (fadd (fmul (score_at s ''transaction_velocity'') (const64 0.4))
                (fmul (fsub (const64 100) (score_at s ''amount_distribution'')) (const64 0.3)))
          (fmul (fsub (const64 100) (score_at s ''savings_affinity'')) (const64 0.3))"

definition cyclical_spender :: "(string \<rightharpoonup> float64) \<Rightarrow> float64" where
  "cyclical_spender s =
     fadd (fadd (fmul (score_at s ''amount_distribution'') (const64 0.4))
                (fmul (score_at s ''income_response'') (const64 0.3)))
          (fmul (fsub (const64 100) (score_at s ''balance_comfort'')) (const64 0.3))"

definition strategic_planner :: "(string \<rightharpoonup> float64) \<Rightarrow> float64" where
  "strategic_planner s =
     fadd (fadd (fadd (fmul (fsub (const64 100) (score_at s ''amount_distribution'')) (const64 0.3))
                      (fmul (score_at s ''savings_affinity'') (const64 0.3)))
                (fmul (fsub (const64 100) (score_at s ''income_response'')) (const64 0.2)))
          (fmul (score_at s ''balance_comfort'') (const64 0.2))"

definition archetypes :: "archetype list" where
  "archetypes =
     [Archetype ''The Reward Seeker'' reward_seeker,
      Archetype ''The Safety Hoarder'' safety_hoarder,
      Archetype ''The Impulse Optimizer'' impulse_optimizer,
      Archetype ''The Cyclical Spender'' cyclical_spender,
      Archetype ''The Strategic Planner'' strategic_planner]"

text \<open>The selection loop: \<^verbatim>\<open>bestMatch := archetypes[0]; bestScore := 0.0\<close>, then a
  strict comparison per catalog entry.\<close>

definition best_step ::
  "(string \<rightharpoonup> float64) \<Rightarrow> archetype \<times> float64 \<Rightarrow> archetype \<Rightarrow> archetype \<times> float64" where
  "best_step scores best a =
     (let score = matcher a scores
      in if fgt score (snd best) then (a, score) else best)"

definition best_match :: "(string \<rightharpoonup> float64) \<Rightarrow> archetype \<times> float64" where
  "best_match scores = foldl (best_step scores) (archetypes ! 0, Finite 0) archetypes"

text \<open>
  \<^verbatim>\<open>sort.Float64s\<close> sorts in increasing order with not-a-number values before the
  others. The order is a strict weak ordering; the sort need not be stable, so the
  result is a permutation in which no later element is less than an earlier one.
\<close>

definition float64_less :: "float64 \<Rightarrow> float64 \<Rightarrow> bool" where
  "float64_less a b \<longleftrightarrow> flt a b \<or> (a = NaN \<and> b \<noteq> NaN)"

definition sort_Float64s :: "float64 list \<Rightarrow> float64 list \<Rightarrow> bool" where
  "sort_Float64s xs ys \<longleftrightarrow> mset ys = mset xs \<and> sorted_wrt (\<lambda>a b. \<not> float64_less b a) ys"

text \<open>The confidence computed from the sorted slice of archetype scores: the gap
  between its last two entries.\<close>

definition confidence_of :: "float64 list \<Rightarrow> float64" where
  "confidence_of sortedScores =
     (if length sortedScores \<ge> 2
      then math_Min
             (fadd (const64 0.5)
                (fdiv (fsub (sortedScores ! (length sortedScores - 1))
                            (sortedScores ! (length sortedScores - 2)))
                      (const64 100)))
             (const64 0.95)
      else const64 0.7)"

record PersonalityArchetype =
  Type :: string
  Confidence :: float64

inductive matchArchetype :: "(string \<rightharpoonup> float64) \<Rightarrow> PersonalityArchetype \<Rightarrow> bool" where
  "sort_Float64s (map (\<lambda>a. matcher a scores) archetypes) sortedScores \<Longrightarrow>
   matchArchetype scores
     \<lparr>Type = name (fst (best_match scores)), Confidence = confidence_of sortedScores\<rparr>"

subsection \<open>The handler of \<^verbatim>\<open>createMoneyPersonality\<close>\<close>

text \<open>
  The handler from the point where the transactions are fetched. The confidence entry
  holds the value handed to the \<^verbatim>\<open>%.0f%%\<close> formatter; the static texts and the
  \<^verbatim>\<open>data_source\<close> entry are left out.
\<close>

record personality_result =
  personality_type :: string
  confidence :: float64
  raw_scores :: "string \<rightharpoonup> float64"

inductive createMoneyPersonality_handler ::
  "transaction list \<Rightarrow> personality_result ToolResult \<Rightarrow> bool" where
  too_few:
    "length transactions < 10 \<Longrightarrow>
     createMoneyPersonality_handler transactions
       \<lparr>Success = False, Data = None,
        Error = ''Need at least 10 transactions for accurate personality analysis''\<rparr>"
| profile:
    "\<not> length transactions < 10 \<Longrightarrow>
     matchArchetype (calculatePersonalityScores transactions) archetype \<Longrightarrow>
     createMoneyPersonality_handler transactions
       \<lparr>Success = True,
        Data = Some \<lparr>personality_type = Type archetype,
                     confidence = fmul (Confidence archetype) (const64 100),
                     raw_scores = calculatePersonalityScores transactions\<rparr>,
        Error = []\<rparr>"

section \<open>Reference notions and sample inputs\<close>

text \<open>The amounts of the records of one type, in input order; their sum as a real
  number; and the sum as a \<^verbatim>\<open>float64\<close> loop computes it, adding one amount after the
  other to 0 and rounding each time.\<close>

definition amounts_of :: "string \<Rightarrow> transaction list \<Rightarrow> float64 list" where
  "amounts_of ty txs =
     map (\<lambda>tx. float_field tx ''amount'') (filter (\<lambda>tx. string_field tx ''type'' = ty) txs)"


definition running_sum :: "float64 list \<Rightarrow> float64" where
  "running_sum as = foldl fadd (Finite 0) as"


text \<open>Three records: two \<^verbatim>\<open>send\<close> of 50 and 25 in category \<^verbatim>\<open>food\<close> and one
  \<^verbatim>\<open>receive\<close> of 1000.\<close>

definition example_records :: "transaction list" where
  "example_records =
     [[''type'' \<mapsto> JString ''send'', ''amount'' \<mapsto> JNumber (Finite 50),
       ''category'' \<mapsto> JString ''food''],
      [''type'' \<mapsto> JString ''receive'', ''amount'' \<mapsto> JNumber (Finite 1000),
       ''category'' \<mapsto> JString []],
      [''type'' \<mapsto> JString ''send'', ''amount'' \<mapsto> JNumber (Finite 25),
       ''category'' \<mapsto> JString ''food'']]"

definition example_report :: "int \<Rightarrow> report" where
  "example_report days =
     make_report (analyze_loop example_records) days [CategoryTotal ''food'' (Finite 75)]"



text \<open>The \<^verbatim>\<open>balance_after\<close> values greater than 0, in input order.\<close>

definition positive_balances :: "transaction list \<Rightarrow> float64 list" where
  "positive_balances txs =
     filter (\<lambda>b. fgt b (Finite 0)) (map (\<lambda>tx. float_field tx ''balance_after'') txs)"

text \<open>Ten \<^verbatim>\<open>receive\<close> records of 100 each, without balance.\<close>

definition receive_only :: "transaction list" where
  "receive_only =
     replicate 10 [''type'' \<mapsto> JString ''receive'', ''amount'' \<mapsto> JNumber (Finite 100)]"

text \<open>One \<^verbatim>\<open>send\<close> record of amount 0 with a balance of 20.\<close>

definition zero_send :: "transaction list" where
  "zero_send =
     [[''type'' \<mapsto> JString ''send'', ''amount'' \<mapsto> JNumber (Finite 0),
       ''balance_after'' \<mapsto> JNumber (Finite 20)]]"

text \<open>The two scores that \<^verbatim>\<open>calculatePersonalityScores\<close> derives from the number
  \<open>n\<close> of records and the number \<open>k\<close> of \<^verbatim>\<open>send\<close> records in category
  \<^verbatim>\<open>savings\<close>.\<close>

definition velocity_score :: "nat \<Rightarrow> float64" where
  "velocity_score n =
     math_Min (fmul (fdiv (float64_of_int (int n)) (const64 4)) (const64 10)) (const64 100)"

definition savings_score :: "int \<Rightarrow> nat \<Rightarrow> float64" where
  "savings_score k n =
     math_Min
       (if n > 0
        then fmul (fmul (fdiv (float64_of_int k) (float64_of_int (int n))) (const64 100))
               (const64 3)
        else Finite 0)
       (const64 100)"

definition savings_count :: "transaction list \<Rightarrow> int" where
  "savings_count txs =
     int (length (filter (\<lambda>tx. string_field tx ''type'' = ''send'' \<and>
                                string_field tx ''category'' = ''savings'') txs))"

text \<open>A record of type \<^verbatim>\<open>fee\<close>, and the report on it alone.\<close>

definition fee_record :: transaction where
  "fee_record =
     [''type'' \<mapsto> JString ''fee'', ''amount'' \<mapsto> JNumber (Finite 10)]"

definition fee_report :: report where
  "fee_report = make_report (analyze_loop [fee_record]) 30 []"

text \<open>One \<^verbatim>\<open>send\<close> record with the negative amount \<open>- 5\<close> (a refund), and the report
  on it for \<open>days = - 1\<close>.\<close>

definition refund_records :: "transaction list" where
  "refund_records = [[''type'' \<mapsto> JString ''send'', ''amount'' \<mapsto> JNumber (Finite (- 5))]]"

definition refund_report :: report where
  "refund_report = make_report (analyze_loop refund_records) (- 1) []"

text \<open>The non-empty categories of the \<^verbatim>\<open>send\<close> records, and the total of one category:
  the running sum of the amounts of its \<^verbatim>\<open>send\<close> records.\<close>

definition send_categories :: "transaction list \<Rightarrow> string set" where
  "send_categories txs =
     {c. c \<noteq> [] \<and>
         (\<exists>tx\<in>set txs. string_field tx ''type'' = ''send'' \<and> string_field tx ''category'' = c)}"

definition category_amounts :: "string \<Rightarrow> transaction list \<Rightarrow> float64 list" where
  "category_amounts c txs =
     map (\<lambda>tx. float_field tx ''amount'')
       (filter (\<lambda>tx. string_field tx ''type'' = ''send'' \<and> string_field tx ''category'' = c) txs)"

definition category_total :: "string \<Rightarrow> transaction list \<Rightarrow> float64" where
  "category_total c txs = running_sum (category_amounts c txs)"

text \<open>
  The ranking as the specification words it: the category totals in the order in which
  the categories are first encountered, sorted by descending amount with a stable sort,
  and the first five of them retained.
\<close>

fun spec_add_category ::
  "(string \<times> float64) list \<Rightarrow> string \<Rightarrow> float64 \<Rightarrow> (string \<times> float64) list" where
  "spec_add_category [] c v = [(c, fadd (Finite 0) v)]"
| "spec_add_category ((d, w) # rest) c v =
     (if d = c then (d, fadd w v) # rest else (d, w) # spec_add_category rest c v)"

definition spec_category_totals :: "transaction list \<Rightarrow> (string \<times> float64) list" where
  "spec_category_totals txs =
     foldl (\<lambda>acc tx.
              if string_field tx ''type'' = ''send'' \<and> string_field tx ''category'' \<noteq> []
              then spec_add_category acc (string_field tx ''category'') (float_field tx ''amount'')
              else acc) [] txs"

fun spec_stable_insert ::
  "string \<times> float64 \<Rightarrow> (string \<times> float64) list \<Rightarrow> (string \<times> float64) list" where
  "spec_stable_insert c [] = [c]"
| "spec_stable_insert c (d # ds) =
     (if fgt (snd d) (snd c) then d # spec_stable_insert c ds else c # d # ds)"

definition spec_breakdown :: "transaction list \<Rightarrow> (string \<times> float64) list" where
  "spec_breakdown txs = take 5 (foldr spec_stable_insert (spec_category_totals txs) [])"

text \<open>Six \<^verbatim>\<open>send\<close> records of amount 1, in the categories \<^verbatim>\<open>a\<close> to \<^verbatim>\<open>f\<close>, and a
  report on them that retains the categories \<^verbatim>\<open>b\<close> to \<^verbatim>\<open>f\<close>.\<close>

definition send_one :: "string \<Rightarrow> transaction" where
  "send_one c =
     [''type'' \<mapsto> JString ''send'', ''amount'' \<mapsto> JNumber (Finite 1),
      ''category'' \<mapsto> JString c]"

definition six_records :: "transaction list" where
  "six_records =
     [send_one ''a'', send_one ''b'', send_one ''c'', send_one ''d'', send_one ''e'',
      send_one ''f'']"

definition six_ranking :: "categoryTotal list" where
  "six_ranking =
     [CategoryTotal ''b'' (Finite 1), CategoryTotal ''c'' (Finite 1),
      CategoryTotal ''d'' (Finite 1), CategoryTotal ''e'' (Finite 1),
      CategoryTotal ''f'' (Finite 1), CategoryTotal ''a'' (Finite 1)]"

definition six_report :: report where
  "six_report = make_report (analyze_loop six_records) 30 six_ranking"

text \<open>Six \<^verbatim>\<open>send\<close> records in the categories \<^verbatim>\<open>a\<close> to \<^verbatim>\<open>f\<close> with the amounts 1 to
  6, and the report on them.\<close>

definition send_of :: "string \<Rightarrow> real \<Rightarrow> transaction" where
  "send_of c x =
     [''type'' \<mapsto> JString ''send'', ''amount'' \<mapsto> JNumber (Finite x),
      ''category'' \<mapsto> JString c]"

definition ranked_records :: "transaction list" where
  "ranked_records =
     [send_of ''a'' 1, send_of ''b'' 2, send_of ''c'' 3, send_of ''d'' 4, send_of ''e'' 5,
      send_of ''f'' 6]"

definition ranked_ranking :: "categoryTotal list" where
  "ranked_ranking =
     [CategoryTotal ''f'' (Finite 6), CategoryTotal ''e'' (Finite 5),
      CategoryTotal ''d'' (Finite 4), CategoryTotal ''c'' (Finite 3),
      CategoryTotal ''b'' (Finite 2), CategoryTotal ''a'' (Finite 1)]"

definition ranked_report :: report where
  "ranked_report = make_report (analyze_loop ranked_records) 30 ranked_ranking"

section \<open>Properties of the \<^verbatim>\<open>float64\<close> operations\<close>

lemma pow2_pos: "0 < pow2 e"
  by (simp add: pow2_def)

lemma pow2_powr: "pow2 e = 2 powr real_of_int e"
proof (cases "0 \<le> e")
  case True
  then show ?thesis by (simp add: pow2_def powr_realpow[symmetric])
next
  case False
  then have e: "real (nat (- e)) = - real_of_int e" by simp
  have "(2::real) ^ nat (- e) = 2 powr real (nat (- e))" by (simp add: powr_realpow)
  also have "\<dots> = 2 powr (- real_of_int e)" by (simp only: e)
  finally show ?thesis using False by (simp add: pow2_def powr_minus_divide)
qed

lemma pow2_add: "pow2 (a + b) = pow2 a * pow2 b"
  by (simp add: pow2_powr powr_add)

lemma pow2_mono: "a \<le> b \<Longrightarrow> pow2 a \<le> pow2 b"
  by (simp add: pow2_powr)

lemma pow2_le_iff: "pow2 a \<le> pow2 b \<longleftrightarrow> a \<le> b"
  by (simp add: pow2_powr)

lemma pow2_less_iff: "pow2 a < pow2 b \<longleftrightarrow> a < b"
  by (simp add: pow2_powr)

lemma pow2_nat: "pow2 (int n) = 2 ^ n"
  by (simp add: pow2_def)

lemma pow2_minus: "pow2 (- e) = 1 / pow2 e"
  by (simp add: pow2_powr powr_minus_divide)

lemma round_half_even_of_int: "round_half_even (of_int k) = k"
  by (simp add: round_half_even_def)

lemma floor_log2_bounds:
  assumes "0 < x"
  shows "pow2 (floor_log2 x) \<le> x" and "x < pow2 (floor_log2 x + 1)"
proof -
  show "pow2 (floor_log2 x) \<le> x"
  proof (cases "1 \<le> x")
    case True
    then have n: "0 < \<lfloor>x\<rfloor>" by simp
    from bitlen_bounds[OF n] have "2 ^ nat (bitlen \<lfloor>x\<rfloor> - 1) \<le> \<lfloor>x\<rfloor>" by simp
    then have "real_of_int (2 ^ nat (bitlen \<lfloor>x\<rfloor> - 1)) \<le> real_of_int \<lfloor>x\<rfloor>"
      by (simp only: of_int_le_iff)
    also have "\<dots> \<le> x" by simp
    finally have "2 ^ nat (bitlen \<lfloor>x\<rfloor> - 1) \<le> x" by simp
    moreover have "1 \<le> bitlen \<lfloor>x\<rfloor>" using n by (simp add: bitlen_ge_iff_power)
    ultimately show ?thesis using True by (simp add: floor_log2_def pow2_def)
  next
    case False
    with assms have y: "1 < 1 / x" by simp
    define c where "c = \<lceil>1 / x\<rceil>"
    have c2: "2 \<le> c" unfolding c_def using y by linarith
    then have c1: "0 < c - 1" by simp
    define k where "k = bitlen (c - 1)"
    have k1: "1 \<le> k" unfolding k_def using c1 by (simp add: bitlen_ge_iff_power)
    from bitlen_bounds[OF c1] have "c - 1 < 2 ^ nat k" by (simp add: k_def)
    then have "c \<le> 2 ^ nat k" by simp
    then have "real_of_int c \<le> real_of_int (2 ^ nat k)" by (simp only: of_int_le_iff)
    then have "real_of_int c \<le> 2 ^ nat k" by simp
    moreover have "1 / x \<le> real_of_int c" unfolding c_def by simp
    ultimately have "1 / x \<le> 2 ^ nat k" by linarith
    then have "1 / 2 ^ nat k \<le> x" using assms
      by (simp add: field_simps)
    moreover have "floor_log2 x = - k" using False by (simp add: floor_log2_def k_def c_def)
    ultimately show ?thesis using k1 by (simp add: pow2_def)
  qed
  show "x < pow2 (floor_log2 x + 1)"
  proof (cases "1 \<le> x")
    case True
    then have n: "0 < \<lfloor>x\<rfloor>" by simp
    from bitlen_bounds[OF n] have "\<lfloor>x\<rfloor> < 2 ^ nat (bitlen \<lfloor>x\<rfloor>)" by simp
    then have "\<lfloor>x\<rfloor> + 1 \<le> 2 ^ nat (bitlen \<lfloor>x\<rfloor>)" by simp
    then have "real_of_int (\<lfloor>x\<rfloor> + 1) \<le> real_of_int (2 ^ nat (bitlen \<lfloor>x\<rfloor>))"
      by (simp only: of_int_le_iff)
    then have "real_of_int \<lfloor>x\<rfloor> + 1 \<le> 2 ^ nat (bitlen \<lfloor>x\<rfloor>)" by simp
    moreover have "x < real_of_int \<lfloor>x\<rfloor> + 1" by linarith
    ultimately have "x < 2 ^ nat (bitlen \<lfloor>x\<rfloor>)" by linarith
    moreover have "0 \<le> bitlen \<lfloor>x\<rfloor>" by (rule bitlen_nonneg)
    ultimately show ?thesis using True by (simp add: floor_log2_def pow2_def)
  next
    case False
    with assms have y: "1 < 1 / x" by simp
    define c where "c = \<lceil>1 / x\<rceil>"
    have c2: "2 \<le> c" unfolding c_def using y by linarith
    then have c1: "0 < c - 1" by simp
    define k where "k = bitlen (c - 1)"
    have k1: "1 \<le> k" unfolding k_def using c1 by (simp add: bitlen_ge_iff_power)
    from bitlen_bounds[OF c1] have "2 ^ nat (k - 1) \<le> c - 1" by (simp add: k_def)
    then have "real_of_int (2 ^ nat (k - 1)) \<le> real_of_int (c - 1)" by (simp only: of_int_le_iff)
    then have "2 ^ nat (k - 1) \<le> real_of_int (c - 1)" by simp
    moreover have "real_of_int (c - 1) < 1 / x" unfolding c_def by linarith
    ultimately have "2 ^ nat (k - 1) < 1 / x" by linarith
    then have "x < 1 / 2 ^ nat (k - 1)" using assms
      by (simp add: field_simps)
    moreover have "floor_log2 x = - k" using False by (simp add: floor_log2_def k_def c_def)
    moreover have "pow2 (- k + 1) = 1 / 2 ^ nat (k - 1)"
      using k1 by (cases "k = 1") (simp_all add: pow2_def)
    ultimately show ?thesis by simp
  qed
qed

lemma floor_log2_unique:
  assumes "pow2 k \<le> x" and "x < pow2 (k + 1)"
  shows "floor_log2 x = k"
proof -
  have x: "0 < x" using assms(1) pow2_pos[of k] by linarith
  note b = floor_log2_bounds[OF x]
  have "pow2 k < pow2 (floor_log2 x + 1)" using assms(1) b(2) by linarith
  then have "k < floor_log2 x + 1" by (simp add: pow2_powr)
  moreover have "pow2 (floor_log2 x) < pow2 (k + 1)" using assms(2) b(1) by linarith
  then have "floor_log2 x < k + 1" by (simp add: pow2_powr)
  ultimately show ?thesis by simp
qed

lemma ulp_exponent_subnormal: "\<bar>x\<bar> < pow2 (- 1022) \<Longrightarrow> ulp_exponent x = - 1074"
  by (simp add: ulp_exponent_def)

lemma ulp_exponent_normal:
  assumes "pow2 (- 1022) \<le> \<bar>x\<bar>"
  shows "ulp_exponent x = floor_log2 \<bar>x\<bar> - 52"
    and "pow2 (ulp_exponent x + 52) \<le> \<bar>x\<bar>"
    and "\<bar>x\<bar> < pow2 (ulp_exponent x + 53)"
    and "- 1074 \<le> ulp_exponent x"
proof -
  have pos: "0 < \<bar>x\<bar>" using assms pow2_pos[of "- 1022"] by linarith
  show e: "ulp_exponent x = floor_log2 \<bar>x\<bar> - 52"
    using assms by (simp add: ulp_exponent_def)
  have "ulp_exponent x + 52 = floor_log2 \<bar>x\<bar>" and "ulp_exponent x + 53 = floor_log2 \<bar>x\<bar> + 1"
    by (simp_all add: e)
  with floor_log2_bounds[OF pos] show "pow2 (ulp_exponent x + 52) \<le> \<bar>x\<bar>"
    and "\<bar>x\<bar> < pow2 (ulp_exponent x + 53)"
    by (simp_all only:)
  have "pow2 (- 1022) < pow2 (floor_log2 \<bar>x\<bar> + 1)"
    using assms floor_log2_bounds(2)[OF pos] by linarith
  then have "- 1022 < floor_log2 \<bar>x\<bar> + 1" by (simp add: pow2_powr)
  then show "- 1074 \<le> ulp_exponent x" by (simp add: e)
qed

lemma ulp_exponent_ge: "- 1074 \<le> ulp_exponent x"
  by (cases "\<bar>x\<bar> < pow2 (- 1022)")
     (simp_all add: ulp_exponent_subnormal ulp_exponent_normal(4))

lemma ulp_exponent_bound: "\<bar>x\<bar> < pow2 (ulp_exponent x + 53)"
proof (cases "\<bar>x\<bar> < pow2 (- 1022)")
  case True
  moreover have "pow2 (- 1022) \<le> pow2 (- 1074 + 53)" by (rule pow2_mono) simp
  ultimately show ?thesis by (simp add: ulp_exponent_subnormal)
next
  case False
  then show ?thesis by (simp add: ulp_exponent_normal(3))
qed

lemma ulp_exponent_eq:
  assumes "pow2 (k + 52) \<le> \<bar>x\<bar>" and "\<bar>x\<bar> < pow2 (k + 53)" and "- 1074 \<le> k"
  shows "ulp_exponent x = k"
proof -
  have "pow2 (- 1022) \<le> pow2 (k + 52)" using assms(3) by (intro pow2_mono) simp
  then have n: "pow2 (- 1022) \<le> \<bar>x\<bar>" using assms(1) by linarith
  have "floor_log2 \<bar>x\<bar> = k + 52"
    using assms(1,2) by (intro floor_log2_unique) (simp_all add: add.commute add.left_commute)
  then show ?thesis by (simp add: ulp_exponent_normal(1)[OF n])
qed

lemma ulp_exponent_minus: "ulp_exponent (- x) = ulp_exponent x"
  by (simp add: ulp_exponent_def)

lemma round_half_even_nonneg: "0 \<le> x \<Longrightarrow> 0 \<le> round_half_even x"
  by (simp add: round_half_even_def Let_def)

lemma round_half_even_bounds:
  "\<lfloor>x\<rfloor> \<le> round_half_even x" "round_half_even x \<le> \<lfloor>x\<rfloor> + 1"
  by (simp_all add: round_half_even_def Let_def)

lemma round_half_even_nonpos: "x \<le> 0 \<Longrightarrow> round_half_even x \<le> 0"
proof (cases "x = 0")
  case True
  then show ?thesis by (simp add: round_half_even_def)
next
  case False
  assume "x \<le> 0"
  with False have "x < 0" by simp
  then have "\<lfloor>x\<rfloor> \<le> - 1" by (simp add: floor_le_iff)
  with round_half_even_bounds(2)[of x] show ?thesis by linarith
qed

lemma round64_zero: "round64 0 = Finite 0"
  by (simp add: round64_def round_half_even_def Let_def)

lemma round64_exact:
  assumes "x / pow2 (ulp_exponent x) \<in> \<int>" and "\<bar>x\<bar> < 2 ^ 1024"
  shows "round64 x = Finite x"
proof -
  from assms(1) obtain m where m: "x / pow2 (ulp_exponent x) = of_int m"
    by (auto elim: Ints_cases)
  have p: "pow2 (ulp_exponent x) \<noteq> 0" using pow2_pos[of "ulp_exponent x"] by simp
  have y: "of_int (round_half_even (x / pow2 (ulp_exponent x))) * pow2 (ulp_exponent x) = x"
    unfolding m round_half_even_of_int using m p by (simp add: field_simps)
  show ?thesis
    unfolding round64_def Let_def y using assms(2) by auto
qed

lemma int_le_pow53_grid:
  assumes "x \<in> \<int>" and "\<bar>x\<bar> \<le> 2 ^ 53"
  shows "x / pow2 (ulp_exponent x) \<in> \<int>"
proof (cases "x = 0")
  case True
  then show ?thesis by simp
next
  case False
  with assms(1) have one: "1 \<le> \<bar>x\<bar>"
    by (auto elim!: Ints_cases)
  have "pow2 (- 1022) \<le> pow2 0" by (rule pow2_mono) simp
  then have n: "pow2 (- 1022) \<le> \<bar>x\<bar>" using one by (simp add: pow2_def)
  define e where "e = ulp_exponent x"
  have "pow2 (e + 52) \<le> \<bar>x\<bar>" unfolding e_def by (rule ulp_exponent_normal(2)[OF n])
  also have "\<bar>x\<bar> \<le> pow2 53" using assms(2) by (simp add: pow2_def)
  finally have le: "pow2 (e + 52) \<le> pow2 53" .
  then have "e + 52 \<le> 53" by (simp only: pow2_le_iff)
  then have e1: "e \<le> 1" by simp
  show ?thesis
  proof (cases "e \<le> 0")
    case True
    then have "x / pow2 e = x * 2 ^ nat (- e)"
      by (cases "e = 0") (simp_all add: pow2_def)
    then show ?thesis using assms(1) by (simp add: e_def[symmetric])
  next
    case False
    with e1 have e: "e = 1" by simp
    have "pow2 53 \<le> \<bar>x\<bar>" using \<open>pow2 (e + 52) \<le> \<bar>x\<bar>\<close> by (simp add: e)
    with assms(2) have "\<bar>x\<bar> = 2 ^ 53" by (simp add: pow2_def)
    then have "x = 2 ^ 53 \<or> x = - (2 ^ 53)" by linarith
    then have "x / pow2 1 \<in> \<int>" by (auto simp add: pow2_def)
    then show ?thesis by (simp add: e_def[symmetric] e)
  qed
qed

lemma round64_int:
  assumes "x \<in> \<int>" and "\<bar>x\<bar> \<le> 2 ^ 53"
  shows "round64 x = Finite x"
proof (rule round64_exact)
  show "x / pow2 (ulp_exponent x) \<in> \<int>" by (rule int_le_pow53_grid[OF assms])
  have "(2::real) ^ 53 < 2 ^ 1024" by simp
  with assms(2) show "\<bar>x\<bar> < 2 ^ 1024" by linarith
qed

lemma round64_cases:
  obtains "round64 x = PosInf" and "0 < x"
  | "round64 x = NegInf" and "x < 0"
  | "round64 x = NegZero" and "x < 0"
  | y where "round64 x = Finite y" and "0 \<le> x \<longrightarrow> 0 \<le> y" and "x \<le> 0 \<longrightarrow> y \<le> 0"
proof -
  define e where "e = ulp_exponent x"
  define m where "m = round_half_even (x / pow2 e)"
  define y where "y = of_int m * pow2 e"
  have p: "0 < pow2 e" by (rule pow2_pos)
  have r: "round64 x = (if 2 ^ 1024 \<le> y then PosInf
         else if y \<le> - (2 ^ 1024) then NegInf
         else if y = 0 \<and> x < 0 then NegZero
         else Finite y)"
    by (simp add: round64_def Let_def y_def m_def e_def)
  have pos: "0 \<le> y" if "0 \<le> x"
  proof -
    from that p have "0 \<le> x / pow2 e" by simp
    then have "0 \<le> m" unfolding m_def by (rule round_half_even_nonneg)
    then show ?thesis using p by (simp add: y_def)
  qed
  have neg: "y \<le> 0" if "x \<le> 0"
  proof -
    from that p have "x / pow2 e \<le> 0" by (simp add: divide_nonpos_pos)
    then have "m \<le> 0" unfolding m_def by (rule round_half_even_nonpos)
    then show ?thesis using p by (simp add: y_def mult_nonpos_nonneg)
  qed
  consider "2 ^ 1024 \<le> y" | "y \<le> - (2 ^ 1024)" | "\<not> 2 ^ 1024 \<le> y" "\<not> y \<le> - (2 ^ 1024)" "y = 0 \<and> x < 0"
    | "\<not> 2 ^ 1024 \<le> y" "\<not> y \<le> - (2 ^ 1024)" "\<not> (y = 0 \<and> x < 0)"
    by blast
  then show thesis
  proof cases
    case 1
    then have "0 < y" by (smt (verit) zero_less_power)
    with neg have "0 < x" by fastforce
    with 1 r that(1) show ?thesis by simp
  next
    case 2
    then have "y < 0" by (smt (verit) zero_less_power)
    with pos have "x < 0" by fastforce
    moreover have "\<not> (2::real) ^ 1024 \<le> y" using \<open>y < 0\<close> by (smt (verit) zero_less_power)
    ultimately show ?thesis using 2 r that(2) by simp
  next
    case 3
    with r that(3) show ?thesis by simp
  next
    case 4
    with r have "round64 x = Finite y" by simp
    with pos neg that(4) show ?thesis by blast
  qed
qed

lemmas round64_eval =
  round64_def round_half_even_def ulp_exponent_def floor_log2_def pow2_def compute_bitlen Let_def

lemma fadd_Finite: "fadd (Finite x) (Finite y) = round64 (x + y)"
  by (simp add: fadd_def)



section \<open>Properties of the spending analyzer\<close>

subsection \<open>The accumulated totals\<close>



lemma foldl_analyze_spendCount:
  "spendCount (foldl analyze_step st txs) =
     spendCount st + int (length (filter (\<lambda>tx. string_field tx ''type'' = ''send'') txs))"
  by (induction txs arbitrary: st) (simp_all add: analyze_step_def Let_def)








subsection \<open>A report exists for every non-empty input\<close>

lemma finite_dom_analyze_step:
  "finite (dom (categorySpending st)) \<Longrightarrow> finite (dom (categorySpending (analyze_step st tx)))"
  by (simp add: analyze_step_def Let_def map_add_to_def)

lemma finite_dom_foldl_analyze:
  "finite (dom (categorySpending st)) \<Longrightarrow> finite (dom (categorySpending (foldl analyze_step st txs)))"
  by (induction txs arbitrary: st) (simp_all add: finite_dom_analyze_step)

lemma finite_dom_analyze_loop: "finite (dom (categorySpending (analyze_loop txs)))"
  unfolding analyze_loop_def by (rule finite_dom_foldl_analyze) (simp add: totals_init_def)

lemma map_of_enumeration:
  assumes "set ks = dom m"
  shows "map_of (map (\<lambda>k. (k, the (m k))) ks) = m"
proof (rule ext)
  fix x
  have eq: "map_of (map (\<lambda>k. (k, the (m k))) ks) x = (if x \<in> dom m then Some (the (m x)) else None)"
    unfolding map_of_map_restrict restrict_map_def assms by simp
  show "map_of (map (\<lambda>k. (k, the (m k))) ks) x = m x"
    unfolding eq by (cases "m x") (simp_all add: dom_def)
qed

lemma Category_enumeration:
  "map Category (map (\<lambda>k. CategoryTotal k (the (m k))) ks) = ks"
  by (induction ks) simp_all

lemma entries_enumeration:
  "map (\<lambda>c. (Category c, Amount c)) (map (\<lambda>k. CategoryTotal k (the (m k))) ks)
     = map (\<lambda>k. (k, the (m k))) ks"
  by (induction ks) simp_all

lemma map_range_exists:
  assumes "finite (dom m)"
  shows "\<exists>cats. map_range m cats"
proof -
  from finite_distinct_list[OF assms] obtain ks where ks: "set ks = dom m" and d: "distinct ks"
    by blast
  have "map_range m (map (\<lambda>k. CategoryTotal k (the (m k))) ks)"
    unfolding map_range_def Category_enumeration entries_enumeration
    using d map_of_enumeration[OF ks] by (rule conjI)
  then show ?thesis ..
qed

text \<open>A key that orders the \<^verbatim>\<open>float64\<close> values other than not-a-number as \<^verbatim>\<open><\<close> does.\<close>

lemma flt_key:
  assumes "a \<noteq> NaN" and "b \<noteq> NaN"
  shows "flt a b \<longleftrightarrow>
    (if a = NegInf then - 1 else if a = PosInf then (1::int) else 0, val a)
      < (if b = NegInf then - 1 else if b = PosInf then (1::int) else 0, val b)"
  using assms by (cases a; cases b) (simp_all add: flt_def)

lemma sorted_wrt_all: "(\<forall>a\<in>set xs. \<forall>b\<in>set xs. P a b) \<Longrightarrow> sorted_wrt P xs"
  by (induction xs) simp_all

lemma sort_Slice_exists: "\<exists>ys. sort_Slice category_less xs ys"
proof (cases "strict_weak_on (set xs) category_less")
  case False
  then have "sort_Slice category_less xs xs" by (simp add: sort_Slice_def)
  then show ?thesis ..
next
  case sw: True
  show ?thesis
  proof (cases "\<exists>n\<in>set xs. Amount n = NaN")
    case True
    then obtain n where n: "n \<in> set xs" "Amount n = NaN" by blast
    have inc: "\<not> category_less n c \<and> \<not> category_less c n" for c
      by (simp add: category_less_def fgt_def flt_def n(2))
    have tr: "\<not> category_less a b \<and> \<not> category_less b a \<and> \<not> category_less b c \<and> \<not> category_less c b \<longrightarrow>
        \<not> category_less a c \<and> \<not> category_less c a"
      if "a \<in> set xs" "b \<in> set xs" "c \<in> set xs" for a b c
      using sw that unfolding strict_weak_on_def by blast
    have "\<not> category_less b a" if "a \<in> set xs" "b \<in> set xs" for a b
      using tr[OF that(2) n(1) that(1)] inc[of a] inc[of b] by simp
    then have "sorted_wrt (\<lambda>a b. \<not> category_less b a) xs" by (intro sorted_wrt_all) blast
    then have "sort_Slice category_less xs xs" by (simp add: sort_Slice_def)
    then show ?thesis ..
  next
    case False
    define key where "key c = (if Amount c = NegInf then - 1 else if Amount c = PosInf then (1::int) else 0, val (Amount c))" for c
    let ?ys = "rev (sort_key key xs)"
    have "sorted (map key (sort_key key xs))" by (rule sorted_sort_key)
    then have "sorted_wrt (\<lambda>a b. key a \<le> key b) (sort_key key xs)" by (simp add: sorted_map)
    then have "sorted_wrt (\<lambda>a b. key b \<le> key a) ?ys" by (simp add: sorted_wrt_rev)
    moreover have "\<not> category_less b a" if "a \<in> set ?ys" "b \<in> set ?ys" "key b \<le> key a" for a b
    proof -
      from that False have "Amount a \<noteq> NaN" "Amount b \<noteq> NaN" by auto
      from flt_key[OF this] have "flt (Amount a) (Amount b) \<longleftrightarrow> key a < key b"
        unfolding key_def .
      with that(3) have "\<not> flt (Amount a) (Amount b)" using leD by blast
      then show ?thesis unfolding category_less_def fgt_def .
    qed
    ultimately have "sorted_wrt (\<lambda>a b. \<not> category_less b a) ?ys"
      by (rule sorted_wrt_mono_rel[rotated]) blast
    then have "sort_Slice category_less xs ?ys" by (simp add: sort_Slice_def)
    then show ?thesis ..
  qed
qed

lemma analyzeTransactions_total:
  assumes ne: "txs \<noteq> []"
  shows "\<exists>r. analyzeTransactions txs days (Analysis r)"
proof -
  obtain cats where c: "map_range (categorySpending (analyze_loop txs)) cats"
    using map_range_exists[OF finite_dom_analyze_loop] by blast
  obtain cs where s: "sort_Slice category_less cats cs"
    using sort_Slice_exists by blast
  from analyzeTransactions.report[OF ne c s] show ?thesis by blast
qed


lemma example_loop:
  "analyze_loop example_records =
     \<lparr>totalSpent = Finite 75, totalReceived = Finite 1000, spendCount = 2, receiveCount = 1,
      categorySpending = [''food'' \<mapsto> Finite 75]\<rparr>"
  by (simp add: analyze_loop_def example_records_def analyze_step_def totals_init_def
      string_field_def float_field_def map_add_to_def Let_def fadd_Finite round64_int)

lemma example_run:
  "analyzeTransactions example_records days (Analysis (example_report days))"
  unfolding example_report_def
proof (rule analyzeTransactions.report)
  show "example_records \<noteq> []" by (simp add: example_records_def)
  show "map_range (categorySpending (analyze_loop example_records)) [CategoryTotal ''food'' (Finite 75)]"
    by (simp add: example_loop map_range_def)
  show "sort_Slice category_less [CategoryTotal ''food'' (Finite 75)] [CategoryTotal ''food'' (Finite 75)]"
    by (simp add: sort_Slice_def)
qed






section \<open>Properties of the money personality operation\<close>

subsection \<open>The minimum of ten records\<close>

text \<open>
  Claim C5. When fewer than ten transaction records are available, the handler of the
  money-personality tool has exactly one result: the structured failure with the success
  flag false, no data (hence no personality profile) and the message asking for at least
  ten transactions. Scores and archetype are computed only on the other branch.
\<close>

theorem C5_insufficient_data:
  assumes "length txs < 10"
  shows "createMoneyPersonality_handler txs res \<longleftrightarrow>
           res = \<lparr>Success = False, Data = None,
                  Error = ''Need at least 10 transactions for accurate personality analysis''\<rparr>"
  using assms by (auto simp add: createMoneyPersonality_handler.simps)

theorem C5_insufficient_data_witness:
  "length example_records < 10 \<and>
   createMoneyPersonality_handler example_records
     \<lparr>Success = False, Data = None,
      Error = ''Need at least 10 transactions for accurate personality analysis''\<rparr> \<and>
   \<not> createMoneyPersonality_handler example_records
     \<lparr>Success = True, Data = None, Error = []\<rparr>"
proof -
  have l: "length example_records < 10" by (simp add: example_records_def)
  from C5_insufficient_data[OF l] l show ?thesis by simp
qed

subsection \<open>The keys of the score map\<close>

lemma foldl_score_amounts:
  "amounts (foldl score_step st txs) = amounts st @ amounts_of ''send'' txs"
  by (induction txs arbitrary: st) (simp_all add: score_step_def Let_def amounts_of_def)

lemma foldl_score_balances:
  "balances (foldl score_step st txs) = balances st @ positive_balances txs"
  by (induction txs arbitrary: st) (simp_all add: score_step_def Let_def positive_balances_def)

lemma score_loop_amounts: "amounts (score_loop txs) = amounts_of ''send'' txs"
  by (simp add: score_loop_def foldl_score_amounts score_init_def)

lemma score_loop_balances: "balances (score_loop txs) = positive_balances txs"
  by (simp add: score_loop_def foldl_score_balances score_init_def)

lemma calculatePersonalityScores_dom:
  "dom (calculatePersonalityScores txs) =
     {''transaction_velocity'', ''savings_affinity'', ''income_response''} \<union>
     (if amounts_of ''send'' txs = [] then {} else {''amount_distribution''}) \<union>
     (if positive_balances txs = [] then {} else {''balance_comfort''})"
  by (cases "positive_balances txs")
     (auto simp add: calculatePersonalityScores_def Let_def score_loop_amounts
        score_loop_balances split: if_splits)

lemma calculatePersonalityScores_amount_distribution:
  "calculatePersonalityScores txs ''amount_distribution'' =
     (if amounts_of ''send'' txs = [] then None
      else Some (amount_distribution_score (amounts_of ''send'' txs)))"
  by (cases "positive_balances txs")
     (simp_all add: calculatePersonalityScores_def Let_def score_loop_amounts score_loop_balances)

lemma calculatePersonalityScores_balance_comfort:
  "calculatePersonalityScores txs ''balance_comfort'' =
     (case positive_balances txs of [] \<Rightarrow> None
      | b0 # _ \<Rightarrow> Some (balance_comfort_score b0 (positive_balances txs)))"
  by (cases "positive_balances txs")
     (simp_all add: calculatePersonalityScores_def Let_def score_loop_amounts score_loop_balances)

lemma const64_100: "const64 100 = Finite 100"
  by (simp add: const64_def round64_int)

lemma math_Min_zero_100: "math_Min (Finite 0) (const64 100) = Finite 0"
  by (simp add: const64_100 math_Min_def flt_def)

text \<open>
  Claim C4, as amended. The score map always holds \<^verbatim>\<open>transaction_velocity\<close>,
  \<^verbatim>\<open>savings_affinity\<close> and \<^verbatim>\<open>income_response\<close>; it holds \<^verbatim>\<open>amount_distribution\<close>
  exactly when there is a \<^verbatim>\<open>send\<close> record, and \<^verbatim>\<open>balance_comfort\<close> exactly when some
  record has a \<^verbatim>\<open>balance_after\<close> greater than 0; it holds no other key. When there are
  \<^verbatim>\<open>send\<close> records and the mean of their amounts is not greater than 0,
  \<^verbatim>\<open>amount_distribution\<close> is 0.
\<close>

theorem C4_score_keys:
  "dom (calculatePersonalityScores txs) =
     {''transaction_velocity'', ''savings_affinity'', ''income_response''} \<union>
     (if amounts_of ''send'' txs = [] then {} else {''amount_distribution''}) \<union>
     (if positive_balances txs = [] then {} else {''balance_comfort''}) \<and>
   (amounts_of ''send'' txs \<noteq> [] \<and> \<not> fgt (calculateMean (amounts_of ''send'' txs)) (Finite 0) \<longrightarrow>
      calculatePersonalityScores txs ''amount_distribution'' = Some (Finite 0))"
  by (simp add: calculatePersonalityScores_dom calculatePersonalityScores_amount_distribution
      amount_distribution_score_def Let_def math_Min_zero_100)

lemma zero_send_amounts: "amounts_of ''send'' zero_send = [Finite 0]"
  by (simp add: amounts_of_def zero_send_def string_field_def float_field_def)

lemma zero_send_balances: "positive_balances zero_send = [Finite 20]"
  by (simp add: positive_balances_def zero_send_def float_field_def fgt_def flt_def)

lemma calculateMean_zero: "calculateMean [Finite 0] = Finite 0"
  by (simp add: calculateMean_def fadd_Finite round64_zero float64_of_int_def round64_int
      fdiv_def signed_zero_def)

theorem C4_score_keys_witness:
  "dom (calculatePersonalityScores zero_send) =
     {''transaction_velocity'', ''savings_affinity'', ''income_response'',
      ''amount_distribution'', ''balance_comfort''} \<and>
   amounts_of ''send'' zero_send \<noteq> [] \<and>
   \<not> fgt (calculateMean (amounts_of ''send'' zero_send)) (Finite 0) \<and>
   calculatePersonalityScores zero_send ''amount_distribution'' = Some (Finite 0)"
proof -
  have m: "\<not> fgt (calculateMean (amounts_of ''send'' zero_send)) (Finite 0)"
    by (simp add: zero_send_amounts calculateMean_zero fgt_def flt_def)
  have ne: "amounts_of ''send'' zero_send \<noteq> []" by (simp add: zero_send_amounts)
  from C4_score_keys[of zero_send] m ne
  have "dom (calculatePersonalityScores zero_send) =
     {''transaction_velocity'', ''savings_affinity'', ''income_response''} \<union>
     (if amounts_of ''send'' zero_send = [] then {} else {''amount_distribution''}) \<union>
     (if positive_balances zero_send = [] then {} else {''balance_comfort''})"
    and "calculatePersonalityScores zero_send ''amount_distribution'' = Some (Finite 0)"
    by blast+
  then show ?thesis using m ne by (auto simp add: zero_send_amounts zero_send_balances)
qed

lemma receive_only_amounts: "amounts_of ''send'' receive_only = []"
  by (simp add: amounts_of_def receive_only_def string_field_def)

lemma receive_only_balances: "positive_balances receive_only = []"
  by (simp add: positive_balances_def receive_only_def float_field_def fgt_def flt_def)

theorem C4_counterexample:
  "length receive_only = 10 \<and>
   calculatePersonalityScores receive_only ''amount_distribution'' = None \<and>
   calculatePersonalityScores receive_only ''balance_comfort'' = None \<and>
   dom (calculatePersonalityScores receive_only) =
     {''transaction_velocity'', ''savings_affinity'', ''income_response''}"
  by (simp add: calculatePersonalityScores_dom calculatePersonalityScores_amount_distribution
      calculatePersonalityScores_balance_comfort receive_only_amounts receive_only_balances)
     (simp add: receive_only_def)

section \<open>Records of an unrecognized type\<close>

lemma analyze_step_other:
  assumes "string_field r ''type'' \<noteq> ''send''" and "string_field r ''type'' \<noteq> ''receive''"
  shows "analyze_step st r = st"
  using assms by (simp add: analyze_step_def Let_def)

lemma analyze_loop_other:
  assumes "string_field r ''type'' \<noteq> ''send''" and "string_field r ''type'' \<noteq> ''receive''"
  shows "analyze_loop (xs @ r # ys) = analyze_loop (xs @ ys)"
  by (simp add: analyze_loop_def analyze_step_other[OF assms])

lemma analyzeTransactions_other:
  assumes "string_field r ''type'' \<noteq> ''send''" and "string_field r ''type'' \<noteq> ''receive''"
    and "xs @ ys \<noteq> []"
  shows "analyzeTransactions (xs @ r # ys) days a \<longleftrightarrow> analyzeTransactions (xs @ ys) days a"
  using assms(3)
  by (auto simp add: analyzeTransactions.simps[of "xs @ r # ys"]
      analyzeTransactions.simps[of "xs @ ys"] analyze_loop_other[OF assms(1,2)])

lemma amounts_of_other:
  assumes "string_field r ''type'' \<noteq> ty"
  shows "amounts_of ty (xs @ r # ys) = amounts_of ty (xs @ ys)"
  using assms by (simp add: amounts_of_def)

lemma positive_balances_other:
  assumes "\<not> fgt (float_field r ''balance_after'') (Finite 0)"
  shows "positive_balances (xs @ r # ys) = positive_balances (xs @ ys)"
  using assms by (simp add: positive_balances_def)

lemma foldl_score_savings:
  "savingsTransactions (foldl score_step st txs) = savingsTransactions st + savings_count txs"
  by (induction txs arbitrary: st) (simp_all add: score_step_def Let_def savings_count_def)

lemma score_loop_savings: "savingsTransactions (score_loop txs) = savings_count txs"
  by (simp add: score_loop_def foldl_score_savings score_init_def)

lemma savings_count_other:
  assumes "string_field r ''type'' \<noteq> ''send''"
  shows "savings_count (xs @ r # ys) = savings_count (xs @ ys)"
  using assms by (simp add: savings_count_def)

lemma calculatePersonalityScores_velocity:
  "calculatePersonalityScores txs ''transaction_velocity'' = Some (velocity_score (length txs))"
  by (cases "positive_balances txs")
     (simp_all add: calculatePersonalityScores_def Let_def score_loop_amounts score_loop_balances
        velocity_score_def)

lemma calculatePersonalityScores_savings:
  "calculatePersonalityScores txs ''savings_affinity'' =
     Some (savings_score (savings_count txs) (length txs))"
  by (cases "positive_balances txs")
     (simp_all add: calculatePersonalityScores_def Let_def score_loop_amounts score_loop_balances
        score_loop_savings savings_score_def)

lemma calculatePersonalityScores_income:
  "calculatePersonalityScores txs ''income_response'' = Some (const64 50)"
  by (simp add: calculatePersonalityScores_def Let_def)

text \<open>
  Claim C9, as amended. Let \<open>r\<close> be a record whose type is neither \<^verbatim>\<open>send\<close> nor
  \<^verbatim>\<open>receive\<close>, inserted anywhere into a record list. If the list is not empty, the
  Spending Analyzer has the same results with and without \<open>r\<close>. Of the Personality
  Scorer's output, \<^verbatim>\<open>amount_distribution\<close> and \<^verbatim>\<open>income_response\<close> are the same with
  and without \<open>r\<close>, and so is \<^verbatim>\<open>balance_comfort\<close> unless \<open>r\<close> has a \<^verbatim>\<open>balance_after\<close>
  greater than 0; \<^verbatim>\<open>transaction_velocity\<close> and \<^verbatim>\<open>savings_affinity\<close> are computed from
  the number of records, which counts \<open>r\<close>. Both functions are total, so \<open>r\<close> causes no
  error.
\<close>

theorem C9_unrecognized_type:
  assumes "string_field r ''type'' \<noteq> ''send''" and "string_field r ''type'' \<noteq> ''receive''"
  shows "(xs @ ys \<noteq> [] \<longrightarrow>
            (\<forall>days a. analyzeTransactions (xs @ r # ys) days a \<longleftrightarrow>
                      analyzeTransactions (xs @ ys) days a)) \<and>
         calculatePersonalityScores (xs @ r # ys) ''amount_distribution'' =
           calculatePersonalityScores (xs @ ys) ''amount_distribution'' \<and>
         calculatePersonalityScores (xs @ r # ys) ''income_response'' =
           calculatePersonalityScores (xs @ ys) ''income_response'' \<and>
         (\<not> fgt (float_field r ''balance_after'') (Finite 0) \<longrightarrow>
            calculatePersonalityScores (xs @ r # ys) ''balance_comfort'' =
              calculatePersonalityScores (xs @ ys) ''balance_comfort'') \<and>
         calculatePersonalityScores (xs @ r # ys) ''transaction_velocity'' =
           Some (velocity_score (length (xs @ ys) + 1)) \<and>
         calculatePersonalityScores (xs @ r # ys) ''savings_affinity'' =
           Some (savings_score (savings_count (xs @ ys)) (length (xs @ ys) + 1))"
proof (intro conjI impI allI)
  fix days a
  assume "xs @ ys \<noteq> []"
  then show "analyzeTransactions (xs @ r # ys) days a \<longleftrightarrow> analyzeTransactions (xs @ ys) days a"
    by (rule analyzeTransactions_other[OF assms])
next
  show "calculatePersonalityScores (xs @ r # ys) ''amount_distribution'' =
           calculatePersonalityScores (xs @ ys) ''amount_distribution''"
    by (simp only: calculatePersonalityScores_amount_distribution amounts_of_other[OF assms(1)])
  show "calculatePersonalityScores (xs @ r # ys) ''income_response'' =
           calculatePersonalityScores (xs @ ys) ''income_response''"
    by (simp only: calculatePersonalityScores_income)
  show "calculatePersonalityScores (xs @ r # ys) ''transaction_velocity'' =
           Some (velocity_score (length (xs @ ys) + 1))"
    by (simp add: calculatePersonalityScores_velocity)
  show "calculatePersonalityScores (xs @ r # ys) ''savings_affinity'' =
           Some (savings_score (savings_count (xs @ ys)) (length (xs @ ys) + 1))"
    by (simp add: calculatePersonalityScores_savings savings_count_other[OF assms(1)])
next
  assume "\<not> fgt (float_field r ''balance_after'') (Finite 0)"
  then have "positive_balances (xs @ r # ys) = positive_balances (xs @ ys)"
    by (rule positive_balances_other)
  then show "calculatePersonalityScores (xs @ r # ys) ''balance_comfort'' =
              calculatePersonalityScores (xs @ ys) ''balance_comfort''"
    by (simp only: calculatePersonalityScores_balance_comfort)
qed

lemma fee_record_type:
  "string_field fee_record ''type'' \<noteq> ''send''" "string_field fee_record ''type'' \<noteq> ''receive''"
  by (simp_all add: fee_record_def string_field_def)

lemma round64_3_4: "round64 (3 / 4) = Finite (3 / 4)"
  by (simp add: round64_eval)

lemma round64_15_2: "round64 (15 / 2) = Finite (15 / 2)"
  by (simp add: round64_eval)

lemma velocity_score_3: "velocity_score 3 = Finite (15 / 2)"
  by (simp add: velocity_score_def float64_of_int_def const64_def round64_int fdiv_def fmul_def
      round64_3_4 round64_15_2 math_Min_def flt_def)

lemma velocity_score_4: "velocity_score 4 = Finite 10"
  by (simp add: velocity_score_def float64_of_int_def const64_def round64_int fdiv_def fmul_def
      math_Min_def flt_def)

theorem C9_unrecognized_type_witness:
  "string_field fee_record ''type'' \<noteq> ''send'' \<and>
   string_field fee_record ''type'' \<noteq> ''receive'' \<and>
   analyzeTransactions (fee_record # example_records) 30 (Analysis (example_report 30)) \<and>
   calculatePersonalityScores (fee_record # example_records) ''income_response'' =
     calculatePersonalityScores example_records ''income_response'' \<and>
   \<not> fgt (float_field fee_record ''balance_after'') (Finite 0) \<and>
   calculatePersonalityScores (fee_record # example_records) ''balance_comfort'' =
     calculatePersonalityScores example_records ''balance_comfort'' \<and>
   calculatePersonalityScores (fee_record # example_records) ''transaction_velocity'' =
     Some (Finite 10)"
proof -
  have nb: "\<not> fgt (float_field fee_record ''balance_after'') (Finite 0)"
    by (simp add: fee_record_def float_field_def fgt_def flt_def)
  have ne: "[] @ example_records \<noteq> []" by (simp add: example_records_def)
  note c9 = C9_unrecognized_type[OF fee_record_type, of "[]" example_records]
  from c9 ne have "analyzeTransactions ([] @ fee_record # example_records) 30 (Analysis (example_report 30))
      \<longleftrightarrow> analyzeTransactions ([] @ example_records) 30 (Analysis (example_report 30))"
    by blast
  then have run: "analyzeTransactions (fee_record # example_records) 30 (Analysis (example_report 30))"
    using example_run[of 30] by simp
  from c9 nb have "calculatePersonalityScores ([] @ fee_record # example_records) ''income_response'' =
     calculatePersonalityScores ([] @ example_records) ''income_response''"
    and "calculatePersonalityScores ([] @ fee_record # example_records) ''balance_comfort'' =
     calculatePersonalityScores ([] @ example_records) ''balance_comfort''"
    and "calculatePersonalityScores ([] @ fee_record # example_records) ''transaction_velocity'' =
     Some (velocity_score (length ([] @ example_records) + 1))"
    by blast+
  moreover have "length ([] @ example_records) + 1 = 4" by (simp add: example_records_def)
  ultimately show ?thesis using run fee_record_type nb by (simp add: velocity_score_4)
qed

lemma fee_loop: "analyze_loop [fee_record] = totals_init"
  by (simp add: analyze_loop_def analyze_step_other[OF fee_record_type])

lemma fee_run: "analyzeTransactions [fee_record] 30 (Analysis fee_report)"
  unfolding fee_report_def
proof (rule analyzeTransactions.report)
  show "[fee_record] \<noteq> []" by simp
  show "map_range (categorySpending (analyze_loop [fee_record])) []"
    by (simp add: fee_loop totals_init_def map_range_def)
  show "sort_Slice category_less [] []" by (simp add: sort_Slice_def)
qed

theorem C9_counterexample:
  "string_field fee_record ''type'' \<noteq> ''send'' \<and>
   string_field fee_record ''type'' \<noteq> ''receive'' \<and>
   analyzeTransactions [] 30 (Summary ''No transactions found in the specified period'') \<and>
   \<not> analyzeTransactions [fee_record] 30 (Summary ''No transactions found in the specified period'') \<and>
   analyzeTransactions [fee_record] 30 (Analysis fee_report) \<and>
   calculatePersonalityScores example_records ''transaction_velocity'' = Some (Finite (15 / 2)) \<and>
   calculatePersonalityScores (example_records @ [fee_record]) ''transaction_velocity'' =
     Some (Finite 10)"
proof -
  have "analyzeTransactions [] 30 (Summary ''No transactions found in the specified period'')"
    by (rule analyzeTransactions.no_transactions)
  moreover have "\<not> analyzeTransactions [fee_record] 30
      (Summary ''No transactions found in the specified period'')"
    by (auto elim: analyzeTransactions_SummaryE)
  moreover have "length example_records = 3" by (simp add: example_records_def)
  ultimately show ?thesis
    using fee_run fee_record_type
    by (simp add: calculatePersonalityScores_velocity velocity_score_3 velocity_score_4)
qed

section \<open>Rounding is monotone\<close>

lemma round_half_even_mono:
  assumes "s \<le> t"
  shows "round_half_even s \<le> round_half_even t"
proof (cases "\<lfloor>s\<rfloor> = \<lfloor>t\<rfloor>")
  case True
  with assms have "s - of_int \<lfloor>s\<rfloor> \<le> t - of_int \<lfloor>t\<rfloor>" by simp
  then show ?thesis using True by (auto simp add: round_half_even_def Let_def)
next
  case False
  with assms have "\<lfloor>s\<rfloor> < \<lfloor>t\<rfloor>" using floor_mono[OF assms] by linarith
  with round_half_even_bounds(2)[of s] round_half_even_bounds(1)[of t] show ?thesis by linarith
qed

lemma round_half_even_minus: "round_half_even (- t) = - round_half_even t"
proof (cases "t \<in> \<int>")
  case True
  then obtain k where "t = of_int k" by (auto elim: Ints_cases)
  then have "- t = of_int (- k)" by simp
  then show ?thesis unfolding \<open>t = of_int k\<close> by (simp only: round_half_even_of_int)
next
  case False
  then have lt: "of_int \<lfloor>t\<rfloor> < t"
    by (metis Ints_of_int of_int_floor_le order_le_less)
  have f: "\<lfloor>- t\<rfloor> = - \<lfloor>t\<rfloor> - 1"
  proof (rule floor_unique)
    show "of_int (- \<lfloor>t\<rfloor> - 1) \<le> - t" by simp linarith
    show "- t < of_int (- \<lfloor>t\<rfloor> - 1) + 1" using lt by simp
  qed
  define n where "n = \<lfloor>t\<rfloor>"
  define r where "r = t - of_int n"
  have r: "0 < r" "r < 1"
    using lt unfolding r_def n_def by linarith+
  have a: "round_half_even t = (if r < 1 / 2 then n else if 1 / 2 < r then n + 1
      else if even n then n else n + 1)"
    by (simp add: round_half_even_def Let_def n_def r_def)
  have "- t - of_int (- n - 1) = 1 - r" by (simp add: r_def)
  then have b: "round_half_even (- t) = (if 1 - r < 1 / 2 then - n - 1 else if 1 / 2 < 1 - r then - n
      else if even (- n - 1) then - n - 1 else - n)"
    by (simp add: round_half_even_def Let_def f n_def[symmetric])
  show ?thesis unfolding a b using r by auto
qed

lemma floor_log2_mono:
  assumes "0 < a" and "a \<le> b"
  shows "floor_log2 a \<le> floor_log2 b"
proof -
  have b: "0 < b" using assms by linarith
  have "pow2 (floor_log2 a) \<le> a" by (rule floor_log2_bounds(1)[OF assms(1)])
  also have "a \<le> b" by fact
  also have "b < pow2 (floor_log2 b + 1)" by (rule floor_log2_bounds(2)[OF b])
  finally have "floor_log2 a < floor_log2 b + 1" by (simp only: pow2_less_iff)
  then show ?thesis by simp
qed

lemma ulp_exponent_mono:
  assumes "\<bar>a\<bar> \<le> \<bar>b\<bar>"
  shows "ulp_exponent a \<le> ulp_exponent b"
proof (cases "\<bar>a\<bar> < pow2 (- 1022)")
  case True
  then show ?thesis using ulp_exponent_ge[of b] by (simp add: ulp_exponent_subnormal)
next
  case False
  then have na: "pow2 (- 1022) \<le> \<bar>a\<bar>" by simp
  with assms have nb: "pow2 (- 1022) \<le> \<bar>b\<bar>" by linarith
  have "0 < \<bar>a\<bar>" using na pow2_pos[of "- 1022"] by linarith
  from floor_log2_mono[OF this assms] show ?thesis
    by (simp add: ulp_exponent_normal(1)[OF na] ulp_exponent_normal(1)[OF nb])
qed

text \<open>The rounded value before the overflow test.\<close>

lemma round64_alt:
  "round64 x =
     (let y = of_int (round_half_even (x / pow2 (ulp_exponent x))) * pow2 (ulp_exponent x)
      in if 2 ^ 1024 \<le> y then PosInf
         else if y \<le> - (2 ^ 1024) then NegInf
         else if y = 0 \<and> x < 0 then NegZero
         else Finite y)"
  by (simp add: round64_def Let_def)

lemma rounded_mono_nonneg:
  assumes "0 \<le> x" and "x \<le> y"
  shows "of_int (round_half_even (x / pow2 (ulp_exponent x))) * pow2 (ulp_exponent x)
       \<le> of_int (round_half_even (y / pow2 (ulp_exponent y))) * pow2 (ulp_exponent y)"
proof -
  define ex where "ex = ulp_exponent x"
  define ey where "ey = ulp_exponent y"
  have le: "ex \<le> ey" unfolding ex_def ey_def using assms by (intro ulp_exponent_mono) simp
  have px: "0 < pow2 ex" and py: "0 < pow2 ey" by (rule pow2_pos)+
  show ?thesis unfolding ex_def[symmetric] ey_def[symmetric]
  proof (cases "ex = ey")
    case True
    have "x / pow2 ey \<le> y / pow2 ey" using assms(2) py by (simp add: divide_right_mono)
    then have "round_half_even (x / pow2 ey) \<le> round_half_even (y / pow2 ey)"
      by (rule round_half_even_mono)
    then have "real_of_int (round_half_even (x / pow2 ey)) \<le> real_of_int (round_half_even (y / pow2 ey))"
      by simp
    then show "of_int (round_half_even (x / pow2 ex)) * pow2 ex
       \<le> of_int (round_half_even (y / pow2 ey)) * pow2 ey"
      unfolding True using py by (simp add: mult_right_mono)
  next
    case False
    with le have lt: "ex + 53 \<le> ey + 52" by simp
    have "- 1074 \<le> ex" unfolding ex_def by (rule ulp_exponent_ge)
    with False le have "ey \<noteq> - 1074" by simp
    then have ny: "pow2 (- 1022) \<le> \<bar>y\<bar>"
      using ulp_exponent_subnormal[of y] unfolding ey_def by fastforce
    have "pow2 (ey + 52) \<le> \<bar>y\<bar>" unfolding ey_def by (rule ulp_exponent_normal(2)[OF ny])
    then have "pow2 52 * pow2 ey \<le> y" using assms by (simp add: pow2_add mult.commute)
    then have "pow2 52 \<le> y / pow2 ey" using py by (simp add: pos_le_divide_eq)
    then have "real_of_int (2 ^ 52) \<le> y / pow2 ey" by (simp add: pow2_def)
    then have "2 ^ 52 \<le> \<lfloor>y / pow2 ey\<rfloor>" by (simp only: le_floor_iff)
    with round_half_even_bounds(1)[of "y / pow2 ey"]
    have "2 ^ 52 \<le> round_half_even (y / pow2 ey)" by linarith
    then have "real_of_int (2 ^ 52) \<le> real_of_int (round_half_even (y / pow2 ey))"
      by (simp only: of_int_le_iff)
    then have "pow2 52 \<le> real_of_int (round_half_even (y / pow2 ey))" by (simp add: pow2_def)
    then have "pow2 52 * pow2 ey \<le> real_of_int (round_half_even (y / pow2 ey)) * pow2 ey"
      using py by (simp add: mult_right_mono)
    then have lower: "pow2 (ey + 52) \<le> real_of_int (round_half_even (y / pow2 ey)) * pow2 ey"
      by (simp add: pow2_add mult.commute)
    have "\<bar>x\<bar> < pow2 (ex + 53)" unfolding ex_def by (rule ulp_exponent_bound)
    then have "x < pow2 53 * pow2 ex" using assms(1) by (simp add: pow2_add mult.commute)
    then have "x / pow2 ex < pow2 53" using px by (simp add: pos_divide_less_eq)
    then have "x / pow2 ex \<le> real_of_int (2 ^ 53)" by (simp add: pow2_def)
    then have "round_half_even (x / pow2 ex) \<le> round_half_even (real_of_int (2 ^ 53))"
      by (rule round_half_even_mono)
    then have "round_half_even (x / pow2 ex) \<le> 2 ^ 53" by (simp only: round_half_even_of_int)
    then have "real_of_int (round_half_even (x / pow2 ex)) \<le> real_of_int (2 ^ 53)"
      by (simp only: of_int_le_iff)
    then have "real_of_int (round_half_even (x / pow2 ex)) \<le> pow2 53" by (simp add: pow2_def)
    then have "real_of_int (round_half_even (x / pow2 ex)) * pow2 ex \<le> pow2 53 * pow2 ex"
      using px by (simp add: mult_right_mono)
    then have upper: "real_of_int (round_half_even (x / pow2 ex)) * pow2 ex \<le> pow2 (ex + 53)"
      by (simp add: pow2_add mult.commute)
    have "pow2 (ex + 53) \<le> pow2 (ey + 52)" using lt by (rule pow2_mono)
    with lower upper show "of_int (round_half_even (x / pow2 ex)) * pow2 ex
       \<le> of_int (round_half_even (y / pow2 ey)) * pow2 ey"
      by linarith
  qed
qed

lemma rounded_minus:
  "of_int (round_half_even (- x / pow2 (ulp_exponent (- x)))) * pow2 (ulp_exponent (- x))
     = - (of_int (round_half_even (x / pow2 (ulp_exponent x))) * pow2 (ulp_exponent x))"
proof -
  have "- x / pow2 (ulp_exponent x) = - (x / pow2 (ulp_exponent x))" by simp
  then show ?thesis by (simp only: ulp_exponent_minus round_half_even_minus of_int_minus mult_minus_left)
qed

lemma rounded_zero:
  "of_int (round_half_even (0 / pow2 (ulp_exponent 0))) * pow2 (ulp_exponent 0) = 0"
  by (simp add: round_half_even_def)

lemma rounded_mono:
  assumes "x \<le> y"
  shows "of_int (round_half_even (x / pow2 (ulp_exponent x))) * pow2 (ulp_exponent x)
       \<le> of_int (round_half_even (y / pow2 (ulp_exponent y))) * pow2 (ulp_exponent y)"
proof -
  consider "0 \<le> x" | "x < 0" "0 \<le> y" | "x < 0" "y < 0" by linarith
  then show ?thesis
  proof cases
    case 1
    then show ?thesis using assms by (rule rounded_mono_nonneg)
  next
    case 2
    have "0 \<le> - x" using 2(1) by simp
    from rounded_mono_nonneg[OF order_refl this] rounded_zero rounded_minus[of x]
    have a: "of_int (round_half_even (x / pow2 (ulp_exponent x))) * pow2 (ulp_exponent x) \<le> 0"
      by linarith
    from rounded_mono_nonneg[OF order_refl 2(2)] rounded_zero
    have "0 \<le> of_int (round_half_even (y / pow2 (ulp_exponent y))) * pow2 (ulp_exponent y)"
      by linarith
    with a show ?thesis by linarith
  next
    case 3
    have "0 \<le> - y" "- y \<le> - x" using 3 assms by simp_all
    from rounded_mono_nonneg[OF this] rounded_minus[of x] rounded_minus[of y]
    show ?thesis by linarith
  qed
qed

lemma fle_Finite: "fle (Finite a) (Finite b) \<longleftrightarrow> a \<le> b"
  by (auto simp add: fle_def flt_def)

lemma round64_mono:
  assumes "x \<le> y"
  shows "fle (round64 x) (round64 y)"
proof -
  define rx where "rx = of_int (round_half_even (x / pow2 (ulp_exponent x))) * pow2 (ulp_exponent x)"
  define ry where "ry = of_int (round_half_even (y / pow2 (ulp_exponent y))) * pow2 (ulp_exponent y)"
  have le: "rx \<le> ry" unfolding rx_def ry_def using assms by (rule rounded_mono)
  have p: "(0::real) < 2 ^ 1024" by simp
  have x: "round64 x = (if 2 ^ 1024 \<le> rx then PosInf else if rx \<le> - (2 ^ 1024) then NegInf
      else if rx = 0 \<and> x < 0 then NegZero else Finite rx)"
    by (simp add: round64_alt rx_def Let_def)
  have y: "round64 y = (if 2 ^ 1024 \<le> ry then PosInf else if ry \<le> - (2 ^ 1024) then NegInf
      else if ry = 0 \<and> y < 0 then NegZero else Finite ry)"
    by (simp add: round64_alt ry_def Let_def)
  show ?thesis unfolding x y using le p
    by (simp add: fle_def flt_def)
qed

section \<open>Signs of \<^verbatim>\<open>float64\<close> results\<close>

lemma fle_zero_right:
  "fle a (Finite 0) \<longleftrightarrow> a = NegInf \<or> a = NegZero \<or> (\<exists>x\<le>0. a = Finite x)"
  by (cases a) (auto simp add: fle_def flt_def)

lemma fle_zero_left:
  "fle (Finite 0) a \<longleftrightarrow> a = PosInf \<or> a = NegZero \<or> (\<exists>x\<ge>0. a = Finite x)"
  by (cases a) (auto simp add: fle_def flt_def)

lemma round64_nonneg: "0 \<le> x \<Longrightarrow> fle (Finite 0) (round64 x)"
  using round64_mono[of 0 x] by (simp add: round64_zero)

lemma round64_nonpos: "x \<le> 0 \<Longrightarrow> fle (round64 x) (Finite 0)"
  using round64_mono[of x 0] by (simp add: round64_zero)

lemma round64_not_NaN: "round64 x \<noteq> NaN"
  by (simp add: round64_alt Let_def)

lemma fle_between_negative:
  assumes "fle (Finite a) z" and "fle z (Finite b)" and "b < 0"
  obtains y where "z = Finite y" and "a \<le> y" and "y \<le> b"
  using assms by (cases z) (auto simp add: fle_def flt_def)

lemma round64_2p63: "round64 (- 9223372036854775808) = Finite (- 9223372036854775808)"
  by (simp add: round64_eval)

lemma float64_of_int_negative:
  assumes "days < 0" and "- (2 ^ 63) \<le> days"
  obtains y where "float64_of_int days = Finite y" and "y < 0"
proof -
  have "days \<le> - 1" using assms(1) by simp
  then have "real_of_int days \<le> real_of_int (- 1)" by (simp only: of_int_le_iff)
  then have "real_of_int days \<le> - 1" by simp
  from round64_mono[OF this] have u: "fle (float64_of_int days) (Finite (- 1))"
    by (simp add: float64_of_int_def round64_int)
  have "real_of_int (- (2 ^ 63)) \<le> real_of_int days" using assms(2) by (simp only: of_int_le_iff)
  then have "- 9223372036854775808 \<le> real_of_int days" by simp
  from round64_mono[OF this] have l: "fle (Finite (- 9223372036854775808)) (float64_of_int days)"
    by (simp add: float64_of_int_def round64_2p63)
  from l u show ?thesis
    by (rule fle_between_negative) (use that in auto)
qed

lemma fdiv_nonneg_negative:
  assumes "fle (Finite 0) a" and "y < 0"
  shows "fle (fdiv a (Finite y)) (Finite 0)"
proof -
  from assms(1) consider "a = PosInf" | "a = NegZero" | x where "a = Finite x" "0 \<le> x"
    by (auto simp add: fle_zero_left)
  then show ?thesis
  proof cases
    case 1
    then show ?thesis using assms(2) by (simp add: fdiv_def signed_inf_def fle_def flt_def)
  next
    case 2
    then show ?thesis using assms(2) by (simp add: fdiv_def signed_zero_def fle_def flt_def)
  next
    case 3
    show ?thesis
    proof (cases "x = 0")
      case True
      then show ?thesis using 3 assms(2) by (simp add: fdiv_def signed_zero_def fle_def flt_def)
    next
      case False
      have "x / y \<le> 0" using 3(2) assms(2) by (simp add: divide_nonneg_neg)
      then have "fle (round64 (x / y)) (Finite 0)" by (rule round64_nonpos)
      then show ?thesis using False 3(1) assms(2) by (simp add: fdiv_def)
    qed
  qed
qed

lemma fmul_nonpos_positive:
  assumes "fle a (Finite 0)" and "0 < c"
  shows "fle (fmul a (Finite c)) (Finite 0)"
proof -
  from assms(1) consider "a = NegInf" | "a = NegZero" | x where "a = Finite x" "x \<le> 0"
    by (auto simp add: fle_zero_right)
  then show ?thesis
  proof cases
    case 1
    then show ?thesis using assms(2) by (simp add: fmul_def signed_inf_def fle_def flt_def)
  next
    case 2
    then show ?thesis using assms(2) by (simp add: fmul_def signed_zero_def fle_def flt_def)
  next
    case 3
    show ?thesis
    proof (cases "x = 0")
      case True
      then show ?thesis using 3 assms(2) by (simp add: fmul_def signed_zero_def fle_def flt_def)
    next
      case False
      have "x * c \<le> 0" using 3(2) assms(2) by (simp add: mult_nonpos_nonneg)
      then have "fle (round64 (x * c)) (Finite 0)" by (rule round64_nonpos)
      then show ?thesis using False 3(1) assms(2) by (simp add: fmul_def)
    qed
  qed
qed

lemma const64_int: "x \<in> \<int> \<Longrightarrow> \<bar>x\<bar> \<le> 2 ^ 53 \<Longrightarrow> const64 x = Finite x"
  by (simp add: const64_def round64_int)

section \<open>Negative \<^verbatim>\<open>days\<close>\<close>

lemma spendCount_analyze_loop_nonneg: "0 \<le> spendCount (analyze_loop txs)"
  by (simp add: analyze_loop_def foldl_analyze_spendCount totals_init_def)

lemma calculateVelocity_negative_days:
  assumes "0 \<le> n" and "days < 0" and "- (2 ^ 63) \<le> days"
  shows "calculateVelocity n days = ''low''"
proof -
  from assms(2,3) obtain y where d: "float64_of_int days = Finite y" and y: "y < 0"
    by (rule float64_of_int_negative)
  have "0 \<le> real_of_int n" using assms(1) by simp
  then have "fle (Finite 0) (float64_of_int n)"
    unfolding float64_of_int_def by (rule round64_nonneg)
  then have "fle (fdiv (float64_of_int n) (float64_of_int days)) (Finite 0)"
    unfolding d using y by (rule fdiv_nonneg_negative)
  then have "fle (fmul (fdiv (float64_of_int n) (float64_of_int days)) (Finite 7)) (Finite 0)"
    by (rule fmul_nonpos_positive) simp
  then have "flt (fmul (fdiv (float64_of_int n) (float64_of_int days)) (Finite 7)) (Finite 2)"
    by (auto simp add: fle_zero_right flt_def)
  then show ?thesis by (simp add: calculateVelocity_def Let_def const64_int)
qed

lemma analyzeTransactions_nonempty_cases:
  assumes "analyzeTransactions txs days a" and "txs \<noteq> []"
  obtains cs where "a = Analysis (make_report (analyze_loop txs) days cs)"
  using assms by (auto simp add: analyzeTransactions.simps)

text \<open>
  Claim C10, as amended. The handler replaces only a \<^verbatim>\<open>days\<close> value of 0 by 30, so a
  negative value reaches \<^verbatim>\<open>analyzeTransactions\<close> as it is. For every non-empty record
  list and every negative \<^verbatim>\<open>days\<close> (an \<^verbatim>\<open>int\<close>, so at least \<open>- 2 ^ 63\<close>) the function
  returns a complete report; its \<^verbatim>\<open>avg_daily_spend\<close> is the \<^verbatim>\<open>float64\<close> quotient of the
  total spent by \<^verbatim>\<open>days\<close>, which is at most 0 whenever the total spent is at least 0; and
  its velocity is \<^verbatim>\<open>low\<close>.
\<close>

theorem C10_negative_days:
  assumes "days < 0" and "- (2 ^ 63) \<le> days" and "txs \<noteq> []"
  shows "default_days days = days \<and>
         (\<exists>r. analyzeTransactions txs days (Analysis r)) \<and>
         (\<forall>a. analyzeTransactions txs (default_days days) a \<longrightarrow>
            (\<exists>r. a = Analysis r \<and>
                 avg_daily_spend r = fdiv (total_spent r) (float64_of_int days) \<and>
                 (fle (Finite 0) (total_spent r) \<longrightarrow> fle (avg_daily_spend r) (Finite 0)) \<and>
                 velocity r = ''low''))"
proof (intro conjI allI impI)
  show dd: "default_days days = days" using assms(1) by (simp add: default_days_def)
  show "\<exists>r. analyzeTransactions txs days (Analysis r)"
    using assms(3) by (rule analyzeTransactions_total)
  fix a assume "analyzeTransactions txs (default_days days) a"
  then have "analyzeTransactions txs days a" by (simp only: dd)
  then obtain cs where a: "a = Analysis (make_report (analyze_loop txs) days cs)"
    using assms(3) by (rule analyzeTransactions_nonempty_cases)
  let ?r = "make_report (analyze_loop txs) days cs"
  from assms(1,2) obtain y where d: "float64_of_int days = Finite y" and y: "y < 0"
    by (rule float64_of_int_negative)
  have avg: "avg_daily_spend ?r = fdiv (total_spent ?r) (float64_of_int days)"
    by (simp add: make_report_def Let_def)
  have sign: "fle (Finite 0) (total_spent ?r) \<longrightarrow> fle (avg_daily_spend ?r) (Finite 0)"
    unfolding avg d using y by (auto intro: fdiv_nonneg_negative)
  have vel: "velocity ?r = ''low''"
    using calculateVelocity_negative_days[OF spendCount_analyze_loop_nonneg assms(1,2)]
    by (simp add: make_report_def Let_def)
  from a avg sign vel
  show "\<exists>r. a = Analysis r \<and>
           avg_daily_spend r = fdiv (total_spent r) (float64_of_int days) \<and>
           (fle (Finite 0) (total_spent r) \<longrightarrow> fle (avg_daily_spend r) (Finite 0)) \<and>
           velocity r = ''low''"
    by blast
qed

lemma round64_minus_5_2: "round64 (- (5 / 2)) = Finite (- (5 / 2))"
  by (simp add: round64_eval)

theorem C10_negative_days_witness:
  "(- 30 :: int) < 0 \<and> - (2 ^ 63) \<le> (- 30 :: int) \<and> example_records \<noteq> [] \<and>
   analyzeTransactions example_records (- 30) (Analysis (example_report (- 30))) \<and>
   total_spent (example_report (- 30)) = Finite 75 \<and>
   fle (Finite 0) (total_spent (example_report (- 30))) \<and>
   avg_daily_spend (example_report (- 30)) = Finite (- (5 / 2)) \<and>
   fle (avg_daily_spend (example_report (- 30))) (Finite 0) \<and>
   velocity (example_report (- 30)) = ''low''"
proof -
  have neg: "(- 30 :: int) < 0" and lo: "- (2 ^ 63) \<le> (- 30 :: int)" by simp_all
  have ne: "example_records \<noteq> []" by (simp add: example_records_def)
  have run: "analyzeTransactions example_records (- 30) (Analysis (example_report (- 30)))"
    by (rule example_run)
  note c10 = C10_negative_days[OF neg lo ne]
  from c10 have dd: "default_days (- 30) = - 30" by blast
  from c10 run dd
  have "velocity (example_report (- 30)) = ''low'' \<and>
        avg_daily_spend (example_report (- 30)) =
          fdiv (total_spent (example_report (- 30))) (float64_of_int (- 30))"
    by auto
  moreover have ts: "total_spent (example_report (- 30)) = Finite 75"
    by (simp add: example_report_def make_report_def Let_def example_loop)
  moreover have "fdiv (Finite 75) (float64_of_int (- 30)) = Finite (- (5 / 2))"
    by (simp add: float64_of_int_def round64_int fdiv_def round64_minus_5_2)
  ultimately show ?thesis using neg lo ne run by (simp add: fle_Finite)
qed

lemma refund_loop:
  "analyze_loop refund_records =
     \<lparr>totalSpent = Finite (- 5), totalReceived = Finite 0, spendCount = 1, receiveCount = 0,
      categorySpending = Map.empty\<rparr>"
  by (simp add: analyze_loop_def refund_records_def analyze_step_def totals_init_def
      string_field_def float_field_def Let_def fadd_Finite round64_int)

lemma refund_run: "analyzeTransactions refund_records (- 1) (Analysis refund_report)"
  unfolding refund_report_def
proof (rule analyzeTransactions.report)
  show "refund_records \<noteq> []" by (simp add: refund_records_def)
  show "map_range (categorySpending (analyze_loop refund_records)) []"
    by (simp add: refund_loop map_range_def)
  show "sort_Slice category_less [] []" by (simp add: sort_Slice_def)
qed

theorem C10_counterexample:
  "(- 1 :: int) < 0 \<and> refund_records \<noteq> [] \<and>
   analyzeTransactions refund_records (- 1) (Analysis refund_report) \<and>
   total_spent refund_report = Finite (- 5) \<and>
   avg_daily_spend refund_report = Finite 5 \<and>
   fgt (avg_daily_spend refund_report) (Finite 0)"
proof -
  have "avg_daily_spend refund_report = Finite 5"
    by (simp add: refund_report_def make_report_def Let_def refund_loop float64_of_int_def
        round64_int fdiv_def)
  moreover have "total_spent refund_report = Finite (- 5)"
    by (simp add: refund_report_def make_report_def Let_def refund_loop)
  ultimately show ?thesis using refund_run
    by (simp add: refund_records_def fgt_def flt_def)
qed

section \<open>The category breakdown\<close>

subsection \<open>The totals per category\<close>

lemma send_categories_Nil: "send_categories [] = {}"
  by (simp add: send_categories_def)

lemma send_categories_Cons:
  "send_categories (tx # txs) =
     (if string_field tx ''type'' = ''send'' \<and> string_field tx ''category'' \<noteq> []
      then insert (string_field tx ''category'') (send_categories txs)
      else send_categories txs)"
  by (auto simp add: send_categories_def)

lemma category_amounts_empty:
  assumes "c \<noteq> []" and "c \<notin> send_categories txs"
  shows "category_amounts c txs = []"
  using assms by (auto simp add: category_amounts_def send_categories_def filter_empty_conv)

lemma foldl_analyze_categorySpending:
  assumes "c \<noteq> []"
  shows "categorySpending (foldl analyze_step st txs) c =
     (if c \<in> send_categories txs
      then Some (foldl fadd (case categorySpending st c of None \<Rightarrow> Finite 0 | Some w \<Rightarrow> w)
                   (category_amounts c txs))
      else categorySpending st c)"
proof (induction txs arbitrary: st)
  case Nil
  then show ?case by (simp add: send_categories_Nil)
next
  case (Cons tx txs)
  show ?case
  proof (cases "string_field tx ''type'' = ''send'' \<and> string_field tx ''category'' = c")
    case True
    then have step: "categorySpending (analyze_step st tx) c =
        Some (fadd (case categorySpending st c of None \<Rightarrow> Finite 0 | Some w \<Rightarrow> w)
               (float_field tx ''amount''))"
      using assms by (simp add: analyze_step_def Let_def map_add_to_def)
    have am: "category_amounts c (tx # txs) = float_field tx ''amount'' # category_amounts c txs"
      using True by (simp add: category_amounts_def)
    have mem: "c \<in> send_categories (tx # txs)"
      using True assms by (simp add: send_categories_Cons)
    show ?thesis
      using category_amounts_empty[OF assms, of txs] by (simp add: Cons.IH step am mem)
  next
    case False
    then have step: "categorySpending (analyze_step st tx) c = categorySpending st c"
      by (auto simp add: analyze_step_def Let_def map_add_to_def)
    have am: "category_amounts c (tx # txs) = category_amounts c txs"
      using False by (auto simp add: category_amounts_def)
    have mem: "c \<in> send_categories (tx # txs) \<longleftrightarrow> c \<in> send_categories txs"
      using False by (auto simp add: send_categories_Cons)
    show ?thesis
      by (simp add: Cons.IH step am mem)
  qed
qed

lemma foldl_analyze_categorySpending_empty:
  "categorySpending (foldl analyze_step st txs) [] = categorySpending st []"
  by (induction txs arbitrary: st) (auto simp add: analyze_step_def Let_def map_add_to_def)

lemma categorySpending_analyze_loop:
  "categorySpending (analyze_loop txs) c =
     (if c \<in> send_categories txs then Some (category_total c txs) else None)"
proof (cases "c = []")
  case True
  then show ?thesis
    by (simp add: analyze_loop_def foldl_analyze_categorySpending_empty totals_init_def
        send_categories_def)
next
  case False
  then show ?thesis
    by (simp add: analyze_loop_def foldl_analyze_categorySpending totals_init_def
        category_total_def running_sum_def)
qed

lemma dom_categorySpending_analyze_loop:
  "dom (categorySpending (analyze_loop txs)) = send_categories txs"
  by (auto simp add: dom_def categorySpending_analyze_loop)

subsection \<open>The ranking\<close>

lemma entries_fst: "map fst (map (\<lambda>c. (Category c, Amount c)) cs) = map Category cs"
  by simp

lemma build_top_foldl:
  "foldl (\<lambda>m c. m(Category c \<mapsto> Amount c)) m0 cs k =
     (case map_of (rev (map (\<lambda>c. (Category c, Amount c)) cs)) k of
        None \<Rightarrow> m0 k | Some v \<Rightarrow> Some v)"
  by (induction cs rule: rev_induct) simp_all

lemma map_of_rev_distinct:
  assumes "distinct (map fst xs)"
  shows "map_of (rev xs) = map_of xs"
proof -
  have "distinct (map fst (rev xs))" using assms by (simp add: rev_map[symmetric])
  then show ?thesis using assms by (simp add: map_of_inject_set)
qed

lemma build_top_map_of:
  assumes "distinct (map Category cs)"
  shows "build_top cs = map_of (map (\<lambda>c. (Category c, Amount c)) (take 5 cs))"
proof (rule ext)
  fix k
  have d: "distinct (map fst (map (\<lambda>c. (Category c, Amount c)) (take 5 cs)))"
    using assms by (simp add: entries_fst take_map[symmetric] distinct_take del: map_map)
  show "build_top cs k = map_of (map (\<lambda>c. (Category c, Amount c)) (take 5 cs)) k"
    unfolding build_top_def build_top_foldl map_of_rev_distinct[OF d]
    by (simp split: option.splits)
qed

lemma ranking_permutation:
  assumes "map_range m cats" and "mset cs = mset cats"
  shows "distinct (map Category cs)"
    and "map_of (map (\<lambda>c. (Category c, Amount c)) cs) = m"
proof -
  have "mset (map Category cs) = mset (map Category cats)" using assms(2) by simp
  then show d: "distinct (map Category cs)"
    using assms(1) mset_eq_imp_distinct_iff unfolding map_range_def by blast
  have dc: "distinct (map fst (map (\<lambda>c. (Category c, Amount c)) cats))"
    using assms(1) by (simp add: map_range_def comp_def)
  have ds: "distinct (map fst (map (\<lambda>c. (Category c, Amount c)) cs))"
    using d by (simp add: comp_def)
  have s: "set (map (\<lambda>c. (Category c, Amount c)) cs) = set (map (\<lambda>c. (Category c, Amount c)) cats)"
    using assms(2) by (metis mset_map set_mset_mset)
  have "map_of (map (\<lambda>c. (Category c, Amount c)) cs) =
        map_of (map (\<lambda>c. (Category c, Amount c)) cats)"
    by (rule map_of_inject_set[THEN iffD2, OF ds dc s])
  then show "map_of (map (\<lambda>c. (Category c, Amount c)) cs) = m"
    using assms(1) by (simp add: map_range_def)
qed

lemma map_of_entries_Some:
  assumes "distinct (map Category cs)"
  shows "map_of (map (\<lambda>c. (Category c, Amount c)) cs) k = Some v \<longleftrightarrow>
           CategoryTotal k v \<in> set cs"
proof -
  have d: "distinct (map fst (map (\<lambda>c. (Category c, Amount c)) cs))"
    using assms by (simp add: comp_def)
  have "map_of (map (\<lambda>c. (Category c, Amount c)) cs) k = Some v \<longleftrightarrow>
        (k, v) \<in> set (map (\<lambda>c. (Category c, Amount c)) cs)"
    using d by (rule map_of_eq_Some_iff)
  also have "\<dots> \<longleftrightarrow> CategoryTotal k v \<in> set cs"
    by (force simp add: image_iff)
  finally show ?thesis .
qed

lemma category_less_strict_weak:
  assumes "\<forall>c\<in>A. Amount c \<noteq> NaN"
  shows "strict_weak_on A category_less"
proof -
  define key where "key c = (if Amount c = NegInf then - 1 else if Amount c = PosInf then (1::int) else 0, val (Amount c))" for c
  have k: "category_less a b \<longleftrightarrow> key b < key a" if "a \<in> A" "b \<in> A" for a b
  proof -
    from that assms have "Amount a \<noteq> NaN" "Amount b \<noteq> NaN" by auto
    from flt_key[OF this(2,1)] show ?thesis
      unfolding category_less_def fgt_def key_def .
  qed
  show ?thesis
    unfolding strict_weak_on_def
  proof (intro conjI ballI impI)
    fix a assume "a \<in> A"
    then show "\<not> category_less a a" by (simp add: k)
  next
    fix a b c assume "a \<in> A" "b \<in> A" "c \<in> A" and "category_less a b \<and> category_less b c"
    then show "category_less a c" by (auto simp add: k)
  next
    fix a b c assume m: "a \<in> A" "b \<in> A" "c \<in> A"
      and "\<not> category_less a b \<and> \<not> category_less b a \<and> \<not> category_less b c \<and> \<not> category_less c b"
    then have "key a = key b" "key b = key c" by (auto simp add: k not_less)
    then show "\<not> category_less a c" "\<not> category_less c a" using m by (simp_all add: k)
  qed
qed

lemma ranking_facts:
  assumes "analyzeTransactions txs days (Analysis r)"
  shows "\<exists>cs. r = make_report (analyze_loop txs) days cs \<and>
    distinct (map Category cs) \<and>
    (\<forall>k v. CategoryTotal k v \<in> set cs \<longleftrightarrow> k \<in> send_categories txs \<and> v = category_total k txs) \<and>
    ((\<forall>c\<in>send_categories txs. category_total c txs \<noteq> NaN) \<longrightarrow>
           sorted_wrt (\<lambda>a b. \<not> category_less b a) cs)"
proof -
  from assms obtain cats cs where r: "r = make_report (analyze_loop txs) days cs"
    and mr: "map_range (categorySpending (analyze_loop txs)) cats"
    and ss: "sort_Slice category_less cats cs"
    by (auto elim: analyzeTransactions_AnalysisE)
  from ss have ms: "mset cs = mset cats" by (simp add: sort_Slice_def)
  note p = ranking_permutation[OF mr ms]
  have mem: "CategoryTotal k v \<in> set cs \<longleftrightarrow> k \<in> send_categories txs \<and> v = category_total k txs"
    for k v
    using map_of_entries_Some[OF p(1), of k v]
    by (auto simp add: p(2) categorySpending_analyze_loop split: if_splits)
  have srt: "sorted_wrt (\<lambda>a b. \<not> category_less b a) cs"
    if nn: "\<forall>c\<in>send_categories txs. category_total c txs \<noteq> NaN"
  proof -
    have "Amount c \<noteq> NaN" if "c \<in> set cats" for c
    proof -
      from that ms have "c \<in> set cs" by (metis set_mset_mset)
      with mem[of "Category c" "Amount c"]
      have "Category c \<in> send_categories txs" and "Amount c = category_total (Category c) txs"
        by simp_all
      with nn show ?thesis by simp
    qed
    then have "strict_weak_on (set cats) category_less"
      by (intro category_less_strict_weak) blast
    with ss show ?thesis by (simp add: sort_Slice_def)
  qed
  from r p(1) mem srt show ?thesis by blast
qed

lemma top_categories_Some:
  assumes "distinct (map Category cs)"
  shows "top_categories (make_report st days cs) k = Some v \<longleftrightarrow> CategoryTotal k v \<in> set (take 5 cs)"
proof -
  have "distinct (map Category (take 5 cs))"
    using assms by (simp add: take_map[symmetric] distinct_take)
  from map_of_entries_Some[OF this] show ?thesis
    by (simp add: make_report_def Let_def build_top_map_of[OF assms])
qed

lemma dom_top_categories:
  assumes "distinct (map Category cs)"
  shows "dom (top_categories (make_report st days cs)) = Category ` set (take 5 cs)"
proof -
  have "k \<in> dom (top_categories (make_report st days cs)) \<longleftrightarrow> k \<in> Category ` set (take 5 cs)" for k
  proof
    assume "k \<in> dom (top_categories (make_report st days cs))"
    then obtain v where "top_categories (make_report st days cs) k = Some v" by blast
    then have "CategoryTotal k v \<in> set (take 5 cs)" by (simp add: top_categories_Some[OF assms])
    then show "k \<in> Category ` set (take 5 cs)" by force
  next
    assume "k \<in> Category ` set (take 5 cs)"
    then obtain c where c: "c \<in> set (take 5 cs)" "k = Category c" by blast
    then have "CategoryTotal k (Amount c) \<in> set (take 5 cs)" by simp
    then have "top_categories (make_report st days cs) k = Some (Amount c)"
      by (simp only: top_categories_Some[OF assms])
    then show "k \<in> dom (top_categories (make_report st days cs))" by blast
  qed
  then show ?thesis by blast
qed

text \<open>
  Claim C3, as amended. For every record list, the category breakdown of a report holds
  \<open>min 5 n\<close> entries, where \<open>n\<close> is the number of non-empty categories among the
  \<^verbatim>\<open>send\<close> records; each entry is such a category with its total (the \<^verbatim>\<open>float64\<close> running
  sum of its \<^verbatim>\<open>send\<close> amounts), so the empty label is excluded; and, provided no
  category total is a not-a-number, every retained category has a total at least as large
  as that of every dropped category. Which of several categories with equal totals are
  retained is not fixed, and the breakdown, a map, carries no order.
\<close>

theorem C3_category_breakdown:
  assumes "analyzeTransactions txs days (Analysis r)"
  shows "dom (top_categories r) \<subseteq> send_categories txs \<and>
         [] \<notin> dom (top_categories r) \<and>
         card (dom (top_categories r)) = min 5 (card (send_categories txs)) \<and>
         (\<forall>c\<in>dom (top_categories r). top_categories r c = Some (category_total c txs)) \<and>
         ((\<forall>c\<in>send_categories txs. category_total c txs \<noteq> NaN) \<longrightarrow>
          (\<forall>c\<in>dom (top_categories r). \<forall>d\<in>send_categories txs - dom (top_categories r).
              fle (category_total d txs) (category_total c txs)))"
proof -
  from ranking_facts[OF assms] obtain cs where r: "r = make_report (analyze_loop txs) days cs"
    and d: "distinct (map Category cs)"
    and mem0: "\<forall>k v. CategoryTotal k v \<in> set cs \<longleftrightarrow> k \<in> send_categories txs \<and> v = category_total k txs"
    and srt0: "(\<forall>c\<in>send_categories txs. category_total c txs \<noteq> NaN) \<longrightarrow>
           sorted_wrt (\<lambda>a b. \<not> category_less b a) cs"
    by blast
  from mem0 have mem: "CategoryTotal k v \<in> set cs \<longleftrightarrow> k \<in> send_categories txs \<and> v = category_total k txs"
    for k v by blast
  from srt0 have srt: "(\<forall>c\<in>send_categories txs. category_total c txs \<noteq> NaN) \<Longrightarrow>
           sorted_wrt (\<lambda>a b. \<not> category_less b a) cs"
    by blast
  have dom: "dom (top_categories r) = Category ` set (take 5 cs)"
    unfolding r by (rule dom_top_categories[OF d])
  have top: "top_categories r k = Some v \<longleftrightarrow> CategoryTotal k v \<in> set (take 5 cs)" for k v
    unfolding r by (rule top_categories_Some[OF d])
  have sub: "set (take 5 cs) \<subseteq> set cs" by (rule set_take_subset)
  have cats: "Category ` set cs = send_categories txs"
  proof -
    have "k \<in> Category ` set cs \<longleftrightarrow> k \<in> send_categories txs" for k
    proof
      assume "k \<in> Category ` set cs"
      then obtain c where "c \<in> set cs" "k = Category c" by blast
      then have "CategoryTotal k (Amount c) \<in> set cs" by simp
      then show "k \<in> send_categories txs" by (simp only: mem)
    next
      assume "k \<in> send_categories txs"
      then have "CategoryTotal k (category_total k txs) \<in> set cs" by (simp add: mem)
      then show "k \<in> Category ` set cs" by force
    qed
    then show ?thesis by blast
  qed
  have s1: "dom (top_categories r) \<subseteq> send_categories txs"
    unfolding dom cats[symmetric] using sub by blast
  have s2: "[] \<notin> dom (top_categories r)"
    using s1 by (auto simp add: send_categories_def)
  have "card (Category ` set cs) = length cs"
    using d by (metis distinct_card length_map set_map)
  then have len: "length cs = card (send_categories txs)" by (simp add: cats)
  have "distinct (map Category (take 5 cs))"
    using d by (simp add: take_map[symmetric] distinct_take)
  then have "card (Category ` set (take 5 cs)) = length (take 5 cs)"
    by (metis distinct_card length_map set_map)
  then have s3: "card (dom (top_categories r)) = min 5 (card (send_categories txs))"
    by (simp add: dom len min.commute)
  have s4: "\<forall>c\<in>dom (top_categories r). top_categories r c = Some (category_total c txs)"
  proof
    fix c assume "c \<in> dom (top_categories r)"
    then obtain v where v: "top_categories r c = Some v" by blast
    then have "CategoryTotal c v \<in> set cs" using sub by (auto simp add: top)
    then have "v = category_total c txs" by (simp add: mem)
    with v show "top_categories r c = Some (category_total c txs)" by simp
  qed
  have s5: "fle (category_total e txs) (category_total c txs)"
    if nn: "\<forall>c\<in>send_categories txs. category_total c txs \<noteq> NaN"
      and c: "c \<in> dom (top_categories r)"
      and e: "e \<in> send_categories txs - dom (top_categories r)" for c e
  proof -
    from srt[OF nn] have "sorted_wrt (\<lambda>a b. \<not> category_less b a) (take 5 cs @ drop 5 cs)" by simp
    then have ord: "\<forall>x\<in>set (take 5 cs). \<forall>y\<in>set (drop 5 cs). \<not> category_less y x"
      by (simp only: sorted_wrt_append) blast
    from c s4 have "top_categories r c = Some (category_total c txs)" by blast
    then have x: "CategoryTotal c (category_total c txs) \<in> set (take 5 cs)" by (simp add: top)
    from e have "CategoryTotal e (category_total e txs) \<in> set cs" by (simp add: mem)
    moreover have "set cs = set (take 5 cs) \<union> set (drop 5 cs)"
      by (metis append_take_drop_id set_append)
    moreover have "CategoryTotal e (category_total e txs) \<notin> set (take 5 cs)"
    proof
      assume "CategoryTotal e (category_total e txs) \<in> set (take 5 cs)"
      then have "Category (CategoryTotal e (category_total e txs)) \<in> Category ` set (take 5 cs)"
        by (rule imageI)
      then have "e \<in> dom (top_categories r)" by (simp add: dom)
      with e show False by simp
    qed
    ultimately have y: "CategoryTotal e (category_total e txs) \<in> set (drop 5 cs)" by blast
    from ord x y have "\<not> category_less (CategoryTotal e (category_total e txs))
        (CategoryTotal c (category_total c txs))"
      by blast
    then have "\<not> flt (category_total c txs) (category_total e txs)"
      by (simp add: category_less_def fgt_def)
    moreover have "category_total c txs \<noteq> NaN" using nn c s1 by blast
    moreover have "category_total e txs \<noteq> NaN" using nn e by blast
    ultimately show ?thesis by (simp add: fle_def)
  qed
  from s1 s2 s3 s4 s5 show ?thesis by blast
qed

lemma ranked_loop:
  "analyze_loop ranked_records =
     \<lparr>totalSpent = Finite 21, totalReceived = Finite 0, spendCount = 6, receiveCount = 0,
      categorySpending =
        [''a'' \<mapsto> Finite 1, ''b'' \<mapsto> Finite 2, ''c'' \<mapsto> Finite 3, ''d'' \<mapsto> Finite 4,
         ''e'' \<mapsto> Finite 5, ''f'' \<mapsto> Finite 6]\<rparr>"
  by (simp add: analyze_loop_def ranked_records_def send_of_def analyze_step_def totals_init_def
      string_field_def float_field_def map_add_to_def Let_def fadd_Finite round64_int)

lemma ranked_run: "analyzeTransactions ranked_records 30 (Analysis ranked_report)"
  unfolding ranked_report_def
proof (rule analyzeTransactions.report)
  show "ranked_records \<noteq> []" by (simp add: ranked_records_def)
  show "map_range (categorySpending (analyze_loop ranked_records)) ranked_ranking"
    by (auto simp add: ranked_loop map_range_def ranked_ranking_def fun_eq_iff)
  show "sort_Slice category_less ranked_ranking ranked_ranking"
    by (simp add: sort_Slice_def ranked_ranking_def category_less_def fgt_def flt_def)
qed

lemma ranked_categories:
  "send_categories ranked_records = {''a'', ''b'', ''c'', ''d'', ''e'', ''f''}"
  unfolding dom_categorySpending_analyze_loop[symmetric] ranked_loop by auto

lemma ranked_totals:
  "category_total ''a'' ranked_records = Finite 1"
  "category_total ''b'' ranked_records = Finite 2"
  "category_total ''c'' ranked_records = Finite 3"
  "category_total ''d'' ranked_records = Finite 4"
  "category_total ''e'' ranked_records = Finite 5"
  "category_total ''f'' ranked_records = Finite 6"
  using categorySpending_analyze_loop[of ranked_records "''a''"]
    categorySpending_analyze_loop[of ranked_records "''b''"]
    categorySpending_analyze_loop[of ranked_records "''c''"]
    categorySpending_analyze_loop[of ranked_records "''d''"]
    categorySpending_analyze_loop[of ranked_records "''e''"]
    categorySpending_analyze_loop[of ranked_records "''f''"]
  by (simp_all add: ranked_loop ranked_categories)

lemma ranked_top:
  "top_categories ranked_report =
     [''f'' \<mapsto> Finite 6, ''e'' \<mapsto> Finite 5, ''d'' \<mapsto> Finite 4, ''c'' \<mapsto> Finite 3,
      ''b'' \<mapsto> Finite 2]"
  by (simp add: ranked_report_def make_report_def Let_def build_top_def ranked_ranking_def)

theorem C3_category_breakdown_witness:
  "analyzeTransactions ranked_records 30 (Analysis ranked_report) \<and>
   send_categories ranked_records = {''a'', ''b'', ''c'', ''d'', ''e'', ''f''} \<and>
   dom (top_categories ranked_report) = {''b'', ''c'', ''d'', ''e'', ''f''} \<and>
   card (dom (top_categories ranked_report)) = 5 \<and>
   top_categories ranked_report ''b'' = Some (Finite 2) \<and>
   category_total ''a'' ranked_records = Finite 1 \<and>
   fle (category_total ''a'' ranked_records) (category_total ''b'' ranked_records)"
proof -
  note c3 = C3_category_breakdown[OF ranked_run]
  have nn: "\<forall>c\<in>send_categories ranked_records. category_total c ranked_records \<noteq> NaN"
    by (simp add: ranked_categories ranked_totals)
  have dm: "dom (top_categories ranked_report) = {''b'', ''c'', ''d'', ''e'', ''f''}"
    by (auto simp add: ranked_top)
  have b: "''b'' \<in> dom (top_categories ranked_report)" by (simp add: dm)
  have a: "''a'' \<in> send_categories ranked_records - dom (top_categories ranked_report)"
    by (simp add: ranked_categories dm)
  from c3 nn a b
  have "fle (category_total ''a'' ranked_records) (category_total ''b'' ranked_records)"
    by blast
  moreover from c3 b
  have "top_categories ranked_report ''b'' = Some (category_total ''b'' ranked_records)"
    by blast
  moreover from c3
  have "card (dom (top_categories ranked_report)) = min 5 (card (send_categories ranked_records))"
    by blast
  moreover have "card (send_categories ranked_records) = 6" by (simp add: ranked_categories)
  ultimately show ?thesis
    using ranked_run dm by (simp add: ranked_categories ranked_totals)
qed

lemma six_loop:
  "analyze_loop six_records =
     \<lparr>totalSpent = Finite 6, totalReceived = Finite 0, spendCount = 6, receiveCount = 0,
      categorySpending =
        [''a'' \<mapsto> Finite 1, ''b'' \<mapsto> Finite 1, ''c'' \<mapsto> Finite 1, ''d'' \<mapsto> Finite 1,
         ''e'' \<mapsto> Finite 1, ''f'' \<mapsto> Finite 1]\<rparr>"
  by (simp add: analyze_loop_def six_records_def send_one_def analyze_step_def totals_init_def
      string_field_def float_field_def map_add_to_def Let_def fadd_Finite round64_int)

lemma six_run: "analyzeTransactions six_records 30 (Analysis six_report)"
  unfolding six_report_def
proof (rule analyzeTransactions.report)
  show "six_records \<noteq> []" by (simp add: six_records_def)
  show "map_range (categorySpending (analyze_loop six_records)) six_ranking"
    by (auto simp add: six_loop map_range_def six_ranking_def fun_eq_iff)
  show "sort_Slice category_less six_ranking six_ranking"
    by (simp add: sort_Slice_def six_ranking_def category_less_def fgt_def flt_def)
qed

lemma six_spec_breakdown:
  "spec_breakdown six_records =
     [(''a'', Finite 1), (''b'', Finite 1), (''c'', Finite 1), (''d'', Finite 1),
      (''e'', Finite 1)]"
  by (simp add: spec_breakdown_def spec_category_totals_def six_records_def send_one_def
      string_field_def float_field_def fadd_Finite round64_int fgt_def flt_def)

theorem C3_counterexample:
  "analyzeTransactions six_records 30 (Analysis six_report) \<and>
   top_categories six_report ''a'' = None \<and>
   top_categories six_report ''f'' = Some (Finite 1) \<and>
   map fst (spec_breakdown six_records) = [''a'', ''b'', ''c'', ''d'', ''e'']"
proof -
  have "top_categories six_report =
     [''b'' \<mapsto> Finite 1, ''c'' \<mapsto> Finite 1, ''d'' \<mapsto> Finite 1, ''e'' \<mapsto> Finite 1,
      ''f'' \<mapsto> Finite 1]"
    by (simp add: six_report_def make_report_def Let_def build_top_def six_ranking_def)
  then show ?thesis using six_run by (simp add: six_spec_breakdown)
qed

end
